theory Spec2Isabelle
  imports Main "HOL-Library.Word" "HOL-Library.Sublist" "HOL-Library.Signed_Division"
begin

unbundle bit_operations_syntax

section \<open>The JOS kernel monitor (kern/monitor.c)\<close>

text \<open>
  The monitor is a small command shell of a 32-bit x86 kernel. Its source file holds four
  command handlers (\<open>mon_help\<close>, \<open>mon_kerninfo\<close>, \<open>mon_backtrace\<close>, \<open>mon_showva2pa\<close>),
  the command interpreter \<open>runcmd\<close> and the read-eval loop \<open>monitor\<close>. Everything else it
  calls (\<open>cprintf\<close>, \<open>readline\<close>, \<open>strtol\<close>, \<open>debuginfo_eip\<close>, \<open>pgdir_walk\<close>,
  \<open>page_lookup\<close>, \<open>read_ebp\<close>) lives in other files.

  Conventions of the embedding:
  \<^item> pointers and \<open>int\<close>s are 32-bit words (\<open>uint32_t *ebp = (uint32_t *) read_ebp()\<close>);
    pointer comparison is unsigned, pointer arithmetic wraps around;
  \<^item> console output is the list of \<open>cprintf\<close> calls made, each with its format string as the
    source writes it and the values of its arguments;
  \<^item> the functions and constants of other files are fields of an environment record;
  \<^item> a handler returns \<open>None\<close> when its loop never ends, and otherwise its return code
    together with the new machine state.
\<close>

subsection \<open>Console output and machine state\<close>

type_synonym addr = "32 word"

datatype arg = ArgInt "32 word" | ArgStr string

datatype event = Cprintf string "arg list"

text \<open>
  Calls to the two page-table functions are logged, so that "which queries were made, and
  with which \<open>create\<close> flag" is a property of the final state.
\<close>

datatype query = Q_pgdir_walk addr bool | Q_page_lookup addr

record 's mstate =
  console :: "event list"
  queries :: "query list"
  kern_pgdir :: 's

definition cprintf :: "string \<Rightarrow> arg list \<Rightarrow> 's mstate \<Rightarrow> 's mstate" where
  "cprintf fmt args s = s\<lparr>console := console s @ [Cprintf fmt args]\<rparr>"

subsection \<open>What the monitor uses from other files\<close>

text \<open>\<open>struct Eipdebuginfo\<close> of kern/kdebug.h, as \<open>mon_backtrace\<close> reads it.\<close>

record Eipdebuginfo =
  eip_file :: string
  eip_line :: "32 word"
  eip_fn_name :: string
  eip_fn_namelen :: "32 word"
  eip_fn_addr :: addr
  eip_fn_narg :: "32 word"

text \<open>
  What \<open>mon_showva2pa\<close> reads through the \<open>struct PageInfo *\<close> that \<open>page_lookup\<close>
  returns: \<open>page2pa(va_page)\<close> and \<open>va_page->pp_ref\<close> (a \<open>uint16_t\<close>).
\<close>

record PageInfo =
  page2pa :: addr
  pp_ref :: "16 word"

text \<open>
  The environment. \<open>mem a\<close> is the 32-bit word that a read at byte address \<open>a\<close> yields (the
  monitor never writes to the stack it inspects, and every address is taken to be readable).
  \<open>pgdir_walk t va create\<close> yields the entry \<open>*entry\<close> (\<open>None\<close> for a \<open>NULL\<close> pointer) and
  the page-table state after the call; \<open>page_lookup t va\<close> yields the page record together
  with the entry stored through its third argument (\<open>None\<close> for \<open>NULL\<close>), and the state
  after the call. \<open>sizeof_uintptr_t\<close> is the size in bytes of the type \<open>uintptr_t\<close> of
  inc/types.h (4 on the 32-bit x86 target); \<open>PTE_W\<close> and \<open>PTE_U\<close> are the permission bits
  of inc/mmu.h; \<open>ROUNDUP\<close> is the macro of inc/types.h; \<open>KERNBASE\<close> is from
  inc/memlayout.h; the \<open>sym_\<close> fields are the linker symbols \<open>_start\<close>, \<open>entry\<close>,
  \<open>etext\<close>, \<open>edata\<close>, \<open>end\<close>.
\<close>

record 's env =
  read_ebp :: addr
  mem :: "addr \<Rightarrow> 32 word"
  debuginfo_eip :: "addr \<Rightarrow> Eipdebuginfo"
  pgdir_walk :: "'s \<Rightarrow> addr \<Rightarrow> bool \<Rightarrow> 32 word option \<times> 's"
  page_lookup :: "'s \<Rightarrow> addr \<Rightarrow> (PageInfo \<times> 32 word) option \<times> 's"
  sizeof_uintptr_t :: nat
  PTE_W :: "32 word"
  PTE_U :: "32 word"
  ROUNDUP :: "32 word \<Rightarrow> 32 word \<Rightarrow> 32 word"
  KERNBASE :: addr
  sym_start :: addr
  sym_entry :: addr
  sym_etext :: addr
  sym_edata :: addr
  sym_end :: addr

definition do_pgdir_walk ::
  "'s env \<Rightarrow> addr \<Rightarrow> bool \<Rightarrow> 's mstate \<Rightarrow> 32 word option \<times> 's mstate" where
  "do_pgdir_walk e va create s =
    (case pgdir_walk e (kern_pgdir s) va create of
       (entry, t) \<Rightarrow>
         (entry, s\<lparr>queries := queries s @ [Q_pgdir_walk va create], kern_pgdir := t\<rparr>))"

definition do_page_lookup ::
  "'s env \<Rightarrow> addr \<Rightarrow> 's mstate \<Rightarrow> (PageInfo \<times> 32 word) option \<times> 's mstate" where
  "do_page_lookup e va s =
    (case page_lookup e (kern_pgdir s) va of
       (r, t) \<Rightarrow> (r, s\<lparr>queries := queries s @ [Q_page_lookup va], kern_pgdir := t\<rparr>))"

text \<open>
  Modelled from the spec: \<open>strtol\<close> is defined in lib/string.c, which is not among the
  sources. The monitor parses an address token "with strtol base 16", and "an unparsable
  token silently yields the value 0". The model is the C library routine on 32-bit \<open>long\<close>:
  skip blanks and tabs, then an optional sign, then an optional \<open>0x\<close> prefix, then digits
  as long as they are digits of the base; the value wraps around on overflow. The end
  pointer it also returns is never read by the monitor and is left out.
\<close>

definition digit_val :: "char \<Rightarrow> nat option" where
  "digit_val c =
    (let n = (of_char c :: nat) in
     if 48 \<le> n \<and> n \<le> 57 then Some (n - 48)
     else if 97 \<le> n \<and> n \<le> 122 then Some (n - 97 + 10)
     else if 65 \<le> n \<and> n \<le> 90 then Some (n - 65 + 10)
     else None)"

fun strtol_digits :: "nat \<Rightarrow> string \<Rightarrow> 32 word \<Rightarrow> 32 word" where
  "strtol_digits base [] val = val"
| "strtol_digits base (c # cs) val =
    (case digit_val c of
       None \<Rightarrow> val
     | Some dig \<Rightarrow>
         if dig \<ge> base then val
         else strtol_digits base cs (val * of_nat base + of_nat dig))"

definition strtol :: "string \<Rightarrow> nat \<Rightarrow> 32 word" where
  "strtol str base =
    (let s1 = dropWhile (\<lambda>c. c = CHR '' '' \<or> c = CHR 0x09) str;
         neg = (take 1 s1 = ''-'');
         s2 = (if take 1 s1 = ''+'' \<or> take 1 s1 = ''-'' then drop 1 s1 else s1);
         pre = ((base = 0 \<or> base = 16) \<and> take 2 s2 = ''0x'');
         s3 = (if pre then drop 2 s2
               else if base = 0 \<and> take 1 s2 = ''0'' then drop 1 s2 else s2);
         base' = (if pre then 16
                  else if base = 0 \<and> take 1 s2 = ''0'' then 8
                  else if base = 0 then 10 else base);
         val = strtol_digits base' s3 0
     in if neg then - val else val)"

subsection \<open>The command table and \<open>mon_help\<close>, \<open>mon_kerninfo\<close>\<close>

text \<open>
  \<open>struct Command\<close>: a name, a description and a handler. The handler gets the argument
  vector (\<open>argc\<close> is its length) and returns its \<open>int\<close> result with the new state; the
  trap frame it is also handed is used by no handler and is left out.
\<close>

record 's Command =
  name :: string
  desc :: string
  func :: "string list \<Rightarrow> 's mstate \<Rightarrow> (int \<times> 's mstate) option"

text \<open>The names and descriptions of \<open>commands[]\<close>, in the order of the table.\<close>

definition command_names :: "(string \<times> string) list" where
  "command_names =
    [(''help'', ''Display this list of commands''),
     (''kerninfo'', ''Display information about the kernel''),
     (''backtrace'', ''Display information about the kernel''),
     (''showva2pa'',
      ''Display the physical pages information corresponding to the designated virtual addresses'')]"

definition mon_help :: "string list \<Rightarrow> 's mstate \<Rightarrow> (int \<times> 's mstate) option" where
  "mon_help argv s =
    Some (0, foldl (\<lambda>s' (n, d). cprintf ''%s - %s\<newline>'' [ArgStr n, ArgStr d] s') s command_names)"

definition mon_kerninfo :: "'s env \<Rightarrow> string list \<Rightarrow> 's mstate \<Rightarrow> (int \<times> 's mstate) option" where
  "mon_kerninfo e argv s =
    (let s1 = cprintf ''Special kernel symbols:\<newline>'' [] s;
         s2 = cprintf ''  _start                  %08x (phys)\<newline>'' [ArgInt (sym_start e)] s1;
         s3 = cprintf ''  entry  %08x (virt)  %08x (phys)\<newline>''
                [ArgInt (sym_entry e), ArgInt (sym_entry e - KERNBASE e)] s2;
         s4 = cprintf ''  etext  %08x (virt)  %08x (phys)\<newline>''
                [ArgInt (sym_etext e), ArgInt (sym_etext e - KERNBASE e)] s3;
         s5 = cprintf ''  edata  %08x (virt)  %08x (phys)\<newline>''
                [ArgInt (sym_edata e), ArgInt (sym_edata e - KERNBASE e)] s4;
         s6 = cprintf ''  end    %08x (virt)  %08x (phys)\<newline>''
                [ArgInt (sym_end e), ArgInt (sym_end e - KERNBASE e)] s5
     in Some (0, cprintf ''Kernel executable memory footprint: %dKB\<newline>''
          [ArgInt (word_of_int (sint (ROUNDUP e (sym_end e - sym_entry e) 1024) sdiv 1024))] s6))"

subsection \<open>\<open>mon_backtrace\<close>\<close>

text \<open>
  One iteration of the \<open>while (ebp != 0)\<close> loop: three \<open>cprintf\<close> calls. \<open>ebp\<close> is a
  \<open>uint32_t *\<close>, so \<open>*(ebp + k)\<close> reads the word at byte address \<open>ebp + 4 * k\<close>. The last
  call prints \<open>eip_fn_addr\<close> after the \<open>+\<close>.
\<close>

definition backtrace_body :: "'s env \<Rightarrow> 's mstate \<Rightarrow> addr \<Rightarrow> 's mstate" where
  "backtrace_body e s ebp =
    (let eip = mem e (ebp + 4);
         s1 = cprintf ''ebp %08x eip %08x args %08x %08x %08x %08x %08x\<newline>''
                [ArgInt ebp, ArgInt eip, ArgInt (mem e (ebp + 8)), ArgInt (mem e (ebp + 12)),
                 ArgInt (mem e (ebp + 16)), ArgInt (mem e (ebp + 20)),
                 ArgInt (mem e (ebp + 24))] s;
         info = debuginfo_eip e eip;
         s2 = cprintf ''%s:%d'' [ArgStr (eip_file info), ArgInt (eip_line info)] s1
     in cprintf '': %.*s+%d\<newline>''
          [ArgInt (eip_fn_namelen info), ArgStr (eip_fn_name info),
           ArgInt (eip_fn_addr info)] s2)"

text \<open>The loop: it ends when \<open>ebp\<close> is 0, and only then.\<close>

partial_function (option) backtrace_loop ::
  "'s env \<Rightarrow> 's mstate \<Rightarrow> addr \<Rightarrow> 's mstate option" where
  "backtrace_loop e s ebp =
    (if ebp \<noteq> 0 then backtrace_loop e (backtrace_body e s ebp) (mem e ebp) else Some s)"

definition mon_backtrace :: "'s env \<Rightarrow> string list \<Rightarrow> 's mstate \<Rightarrow> (int \<times> 's mstate) option" where
  "mon_backtrace e argv s =
    (case backtrace_loop e s (read_ebp e) of None \<Rightarrow> None | Some s' \<Rightarrow> Some (0, s'))"

subsection \<open>\<open>mon_showva2pa\<close>\<close>

text \<open>
  The body of the \<open>for\<close> loop at one address: \<open>pgdir_walk\<close> with \<open>create = 0\<close>, then
  \<open>page_lookup\<close>, then one \<open>cprintf\<close> on each of the three paths.
\<close>

definition showva2pa_body :: "'s env \<Rightarrow> 's mstate \<Rightarrow> addr \<Rightarrow> 's mstate" where
  "showva2pa_body e s va =
    (case do_pgdir_walk e va False s of
       (None, s1) \<Rightarrow>
         cprintf ''VA: %x does not have a mapped physical page!\<newline>'' [ArgInt va] s1
     | (Some entry0, s1) \<Rightarrow>
        (case do_page_lookup e va s1 of
           (None, s2) \<Rightarrow>
             cprintf ''VA: %x does not have a mapped physical page!\<newline>'' [ArgInt va] s2
         | (Some (va_page, entry), s2) \<Rightarrow>
             (let w = (if entry AND PTE_W e = PTE_W e then 1 else 0);
                  u = (if entry AND PTE_U e = PTE_U e then 1 else 0)
              in cprintf ''VA: 0x%x, PA: 0x%x, pp_ref: %d, PTE_W: %d, PTE_U: %d\<newline>''
                   [ArgInt va, ArgInt (page2pa va_page), ArgInt (ucast (pp_ref va_page)),
                    ArgInt w, ArgInt u] s2)))"

text \<open>
  \<open>va\<close> is a \<open>uintptr_t *\<close>, so \<open>va += 1024\<close> adds \<open>1024 * sizeof(uintptr_t)\<close> to the address.
\<close>

definition stride :: "'s env \<Rightarrow> addr" where
  "stride e = word_of_nat (1024 * sizeof_uintptr_t e)"

text \<open>\<open>for (va = va_low; va <= va_high; va += 1024)\<close>, entered with \<open>va\<close>.\<close>

partial_function (option) showva2pa_loop ::
  "'s env \<Rightarrow> 's mstate \<Rightarrow> addr \<Rightarrow> addr \<Rightarrow> 's mstate option" where
  "showva2pa_loop e s va va_high =
    (if va \<le> va_high then showva2pa_loop e (showva2pa_body e s va) (va + stride e) va_high
     else Some s)"

text \<open>
  The bounds of the range, from \<open>argc\<close> and \<open>argv\<close>. With \<open>argc = 0\<close>, which \<open>runcmd\<close> never
  passes, both stay \<open>NULL\<close>.
\<close>

definition showva2pa_range :: "string list \<Rightarrow> addr \<times> addr" where
  "showva2pa_range argv =
    (if length argv = 2 then (strtol (argv ! 1) 16, strtol (argv ! 1) 16)
     else if length argv = 3 then
       (if strtol (argv ! 1) 16 > strtol (argv ! 2) 16
        then (strtol (argv ! 2) 16, strtol (argv ! 1) 16)
        else (strtol (argv ! 1) 16, strtol (argv ! 2) 16))
     else (0, 0))"

definition mon_showva2pa :: "'s env \<Rightarrow> string list \<Rightarrow> 's mstate \<Rightarrow> (int \<times> 's mstate) option" where
  "mon_showva2pa e argv s =
    (if length argv = 1 then Some (0, cprintf ''At least one argument.\<newline>'' [] s)
     else if length argv \<ge> 4 then
       Some (0, cprintf ''Too many arguments (max %d)\<newline>'' [ArgInt 2] s)
     else
       (case showva2pa_range argv of (va_low, va_high) \<Rightarrow>
          (case showva2pa_loop e s va_low va_high of
             None \<Rightarrow> None
           | Some s' \<Rightarrow> Some (0, s'))))"

text \<open>The table \<open>commands[]\<close>.\<close>

definition commands :: "'s env \<Rightarrow> 's Command list" where
  "commands e =
    map2 (\<lambda>(n, d) f. \<lparr>name = n, desc = d, func = f\<rparr>) command_names
      [mon_help, mon_kerninfo e, mon_backtrace e, mon_showva2pa e]"

subsection \<open>The command interpreter \<open>runcmd\<close>\<close>

text \<open>
  The command buffer is a character list; a read at or past its end yields the terminating
  NUL. \<open>runcmd\<close> cuts the buffer into arguments in place: it overwrites white space with
  NUL and keeps, for each argument, the index where it starts (the pointer stored in
  \<open>argv\<close>). \<open>strchr str c\<close> tells whether the C function returns a non-null pointer; for
  \<open>c = NUL\<close> it does (it points at the terminator of \<open>str\<close>).
\<close>

definition NUL :: char where
  "NUL = CHR 0x00"

definition WHITESPACE :: string where
  "WHITESPACE = [CHR 0x09, CHR 0x0D, CHR 0x0A, CHR '' '']"

definition MAXARGS :: nat where
  "MAXARGS = 16"

definition strchr :: "string \<Rightarrow> char \<Rightarrow> bool" where
  "strchr str c = (c \<in> set str \<or> c = NUL)"

definition rd :: "char list \<Rightarrow> nat \<Rightarrow> char" where
  "rd b i = (if i < length b then b ! i else NUL)"

datatype error = TooManyArguments

text \<open>\<open>while (*buf && strchr(WHITESPACE, *buf)) *buf++ = 0;\<close>\<close>

function gobble :: "char list \<Rightarrow> nat \<Rightarrow> char list \<times> nat" where
  "gobble b i =
    (if rd b i \<noteq> NUL \<and> strchr WHITESPACE (rd b i) then gobble (b[i := NUL]) (Suc i)
     else (b, i))"
  by pat_completeness auto
termination
  by (relation "measure (\<lambda>(b, i). length b - i)") (auto simp: rd_def split: if_splits)

text \<open>\<open>while (*buf && !strchr(WHITESPACE, *buf)) buf++;\<close>\<close>

function scan_arg :: "char list \<Rightarrow> nat \<Rightarrow> nat" where
  "scan_arg b i =
    (if rd b i \<noteq> NUL \<and> \<not> strchr WHITESPACE (rd b i) then scan_arg b (Suc i) else i)"
  by pat_completeness auto
termination
  by (relation "measure (\<lambda>(b, i). length b - i)") (auto simp: rd_def split: if_splits)

declare gobble.simps [simp del] scan_arg.simps [simp del]

lemma gobble_length: "length (fst (gobble b i)) = length b"
  by (induction b i rule: gobble.induct) (subst gobble.simps, simp)

lemma gobble_ge: "i \<le> snd (gobble b i)"
  by (induction b i rule: gobble.induct) (subst gobble.simps, auto dest: Suc_leD)

lemma gobble_stop:
  "rd (fst (gobble b i)) (snd (gobble b i)) \<noteq> NUL \<Longrightarrow>
   \<not> strchr WHITESPACE (rd (fst (gobble b i)) (snd (gobble b i)))"
proof (induction b i rule: gobble.induct)
  case (1 b i)
  show ?case
  proof (cases "rd b i \<noteq> NUL \<and> strchr WHITESPACE (rd b i)")
    case True
    then have eq: "gobble b i = gobble (b[i := NUL]) (Suc i)" by (subst gobble.simps) simp
    from 1 True show ?thesis unfolding eq by simp
  next
    case False
    then have eq: "gobble b i = (b, i)" by (subst gobble.simps) auto
    from 1 False show ?thesis unfolding eq by simp
  qed
qed

lemma scan_arg_ge: "i \<le> scan_arg b i"
  by (induction b i rule: scan_arg.induct) (subst scan_arg.simps, auto dest: Suc_leD)

lemma scan_arg_gt:
  "rd b i \<noteq> NUL \<Longrightarrow> \<not> strchr WHITESPACE (rd b i) \<Longrightarrow> i < scan_arg b i"
  using scan_arg_ge [of "Suc i" b] by (subst scan_arg.simps) simp

lemma scan_arg_le: "i \<le> length b \<Longrightarrow> scan_arg b i \<le> length b"
  by (induction b i rule: scan_arg.induct)
     (subst scan_arg.simps, auto simp: rd_def split: if_splits)

text \<open>
  The \<open>while (1)\<close> loop of \<open>runcmd\<close>, entered with the buffer, the position in it and the
  arguments found so far (\<open>argc\<close> is their number). It yields the buffer as it is left and
  the start indices of the arguments, or the error of the sixteenth argument.
\<close>

function parse_args :: "char list \<Rightarrow> nat \<Rightarrow> nat list \<Rightarrow> error + char list \<times> nat list" where
  "parse_args b i argv =
    (case gobble b i of (b', j) \<Rightarrow>
       if rd b' j = NUL then Inr (b', argv)
       else if length argv = MAXARGS - 1 then Inl TooManyArguments
       else parse_args b' (scan_arg b' j) (argv @ [j]))"
  by pat_completeness auto
termination
proof (relation "measure (\<lambda>(b, i, argv). length b - i)")
  show "wf (measure (\<lambda>(b, i, argv). length b - i))" by simp
next
  fix b :: "char list" and i :: nat and argv :: "nat list" and b' j
  assume g: "(b', j) = gobble b i" and nz: "rd b' j \<noteq> NUL"
  from g have b': "b' = fst (gobble b i)" and j: "j = snd (gobble b i)"
    by (metis fst_conv, metis snd_conv)
  have len: "length b' = length b" by (simp add: b' gobble_length)
  have ij: "i \<le> j" by (simp add: j gobble_ge)
  have "\<not> strchr WHITESPACE (rd b' j)" using nz unfolding b' j by (rule gobble_stop)
  with nz have "j < scan_arg b' j" by (rule scan_arg_gt)
  moreover from nz have "j < length b'" by (auto simp: rd_def split: if_splits)
  ultimately show "((b', scan_arg b' j, argv @ [j]), (b, i, argv)) \<in> measure (\<lambda>(b, i, argv). length b - i)"
    using len ij by simp
qed

declare parse_args.simps [simp del]

text \<open>The C string that starts at index \<open>i\<close> of the buffer.\<close>

definition cstr :: "char list \<Rightarrow> nat \<Rightarrow> string" where
  "cstr b i = takeWhile (\<lambda>c. c \<noteq> NUL) (drop i b)"

text \<open>
  The \<open>for\<close> loop over the command table: the first command whose name equals \<open>argv[0]\<close>
  (\<open>strcmp\<close> yields 0) is invoked; when there is none, the command is unknown.
\<close>

fun lookup :: "'s Command list \<Rightarrow> string list \<Rightarrow> 's mstate \<Rightarrow> (int \<times> 's mstate) option" where
  "lookup [] argv s = Some (0, cprintf ''Unknown command '%s'\<newline>'' [ArgStr (argv ! 0)] s)"
| "lookup (c # cs) argv s = (if argv ! 0 = name c then func c argv s else lookup cs argv s)"

definition runcmd :: "'s Command list \<Rightarrow> char list \<Rightarrow> 's mstate \<Rightarrow> (int \<times> 's mstate) option" where
  "runcmd cmds buf s =
    (case parse_args buf 0 [] of
       Inl TooManyArguments \<Rightarrow>
         Some (0, cprintf ''Too many arguments (max %d)\<newline>'' [ArgInt (of_nat MAXARGS)] s)
     | Inr (b', argv) \<Rightarrow>
         if length argv = 0 then Some (0, s)
         else lookup cmds (map (cstr b') argv) s)"

subsection \<open>The loop \<open>monitor\<close>\<close>

text \<open>
  \<open>monitor_loop\<close> runs the \<open>while (1)\<close> loop on the results that \<open>readline\<close> delivers, in
  order (\<open>None\<close> is a \<open>NULL\<close> result). When they are used up the loop is waiting in
  \<open>readline\<close>: it is still \<open>Running\<close>. It is \<open>Terminated\<close> when it has left the loop through
  \<open>break\<close>.
\<close>

datatype mode = Running | Terminated

fun monitor_loop ::
  "'s Command list \<Rightarrow> string option list \<Rightarrow> 's mstate \<Rightarrow> (mode \<times> 's mstate) option" where
  "monitor_loop cmds [] s = Some (Running, s)"
| "monitor_loop cmds (None # ls) s = monitor_loop cmds ls s"
| "monitor_loop cmds (Some buf # ls) s =
    (case runcmd cmds buf s of
       None \<Rightarrow> None
     | Some (r, s') \<Rightarrow> if r < 0 then Some (Terminated, s') else monitor_loop cmds ls s')"

definition monitor ::
  "'s Command list \<Rightarrow> string option list \<Rightarrow> 's mstate \<Rightarrow> (mode \<times> 's mstate) option" where
  "monitor cmds ls s =
    monitor_loop cmds ls
      (cprintf ''Type 'help' for a list of commands.\<newline>'' []
        (cprintf ''Welcome to the JOS kernel monitor!\<newline>'' [] s))"

section \<open>Notions used to state the properties\<close>

subsection \<open>Frame-pointer chains\<close>

text \<open>
  \<open>chain m ebp d\<close>: following the saved frame pointers from \<open>ebp\<close> reaches the value 0
  after exactly \<open>d\<close> frames. \<open>frames m ebp d\<close> are the frame pointers of the first \<open>d\<close>
  frames, innermost first, and \<open>frame_events e ebp\<close> is what is printed for one frame.
\<close>

primrec chain :: "(addr \<Rightarrow> 32 word) \<Rightarrow> addr \<Rightarrow> nat \<Rightarrow> bool" where
  "chain m ebp 0 = (ebp = 0)"
| "chain m ebp (Suc d) = (ebp \<noteq> 0 \<and> chain m (m ebp) d)"

primrec frames :: "(addr \<Rightarrow> 32 word) \<Rightarrow> addr \<Rightarrow> nat \<Rightarrow> addr list" where
  "frames m ebp 0 = []"
| "frames m ebp (Suc d) = ebp # frames m (m ebp) d"

definition frame_events :: "'s env \<Rightarrow> addr \<Rightarrow> event list" where
  "frame_events e ebp =
    [Cprintf ''ebp %08x eip %08x args %08x %08x %08x %08x %08x\<newline>''
       [ArgInt ebp, ArgInt (mem e (ebp + 4)), ArgInt (mem e (ebp + 8)),
        ArgInt (mem e (ebp + 12)), ArgInt (mem e (ebp + 16)), ArgInt (mem e (ebp + 20)),
        ArgInt (mem e (ebp + 24))],
     Cprintf ''%s:%d''
       [ArgStr (eip_file (debuginfo_eip e (mem e (ebp + 4)))),
        ArgInt (eip_line (debuginfo_eip e (mem e (ebp + 4))))],
     Cprintf '': %.*s+%d\<newline>''
       [ArgInt (eip_fn_namelen (debuginfo_eip e (mem e (ebp + 4)))),
        ArgStr (eip_fn_name (debuginfo_eip e (mem e (ebp + 4)))),
        ArgInt (eip_fn_addr (debuginfo_eip e (mem e (ebp + 4))))]]"

subsection \<open>Address ranges and report lines\<close>

text \<open>
  \<open>strided low high d\<close>: the addresses \<open>low\<close>, \<open>low + d\<close>, \<open>low + 2 * d\<close>, ... that are at
  most \<open>high\<close>. \<open>report_va ev\<close>: the address that a report line of \<open>mon_showva2pa\<close> is
  about (each of its two formats is one line of output).
\<close>

definition strided :: "addr \<Rightarrow> addr \<Rightarrow> nat \<Rightarrow> addr list" where
  "strided low high d =
    map (\<lambda>k. low + word_of_nat (k * d)) [0 ..< Suc ((unat high - unat low) div d)]"

fun report_va :: "event \<Rightarrow> addr option" where
  "report_va (Cprintf fmt (ArgInt va # args)) =
    (if fmt = ''VA: %x does not have a mapped physical page!\<newline>'' \<and> args = []
        \<or> fmt = ''VA: 0x%x, PA: 0x%x, pp_ref: %d, PTE_W: %d, PTE_U: %d\<newline>''
          \<and> length args = 4
     then Some va else None)"
| "report_va ev = None"

text \<open>
  The page-table functions of an environment only read: \<open>pgdir_walk\<close> called with
  \<open>create = 0\<close>, and \<open>page_lookup\<close>, leave the page-table state as it is.
\<close>

definition read_only :: "'s env \<Rightarrow> bool" where
  "read_only e =
    ((\<forall>t va. snd (pgdir_walk e t va False) = t) \<and> (\<forall>t va. snd (page_lookup e t va) = t))"

fun no_create :: "query \<Rightarrow> bool" where
  "no_create (Q_pgdir_walk va create) = (\<not> create)"
| "no_create (Q_page_lookup va) = True"

text \<open>Some \<open>cprintf\<close> call of the output prints the text \<open>msg\<close> as part of its format.\<close>

definition reports :: "string \<Rightarrow> event list \<Rightarrow> bool" where
  "reports msg evs = list_ex (\<lambda>ev. case ev of Cprintf fmt args \<Rightarrow> sublist msg fmt) evs"

subsection \<open>Command lines\<close>

text \<open>
  The white-space-separated, non-empty tokens of a line, in order: skip white space, take
  the characters up to the next white space, and go on with the rest.
\<close>

definition is_ws :: "char \<Rightarrow> bool" where
  "is_ws c = (c \<in> set WHITESPACE)"

lemma length_dropWhile_less:
  "dropWhile P xs = y # ys \<Longrightarrow> length (dropWhile Q ys) < length xs"
proof -
  assume a: "dropWhile P xs = y # ys"
  have "length (dropWhile Q ys) \<le> length ys" by (rule length_dropWhile_le)
  also have "length ys < length (dropWhile P xs)" by (simp add: a)
  also have "\<dots> \<le> length xs" by (rule length_dropWhile_le)
  finally show ?thesis .
qed

function tokens :: "string \<Rightarrow> string list" where
  "tokens str =
    (case dropWhile is_ws str of
       [] \<Rightarrow> []
     | c # cs \<Rightarrow> (c # takeWhile (\<lambda>x. \<not> is_ws x) cs) # tokens (dropWhile (\<lambda>x. \<not> is_ws x) cs))"
  by pat_completeness auto
termination
  by (relation "measure length") (auto intro: length_dropWhile_less)

declare tokens.simps [simp del]

text \<open>An address token in which \<open>strtol\<close> finds no digit, sign, blank or prefix to read.\<close>

definition unparsable :: "string \<Rightarrow> bool" where
  "unparsable tok =
    (case tok of
       [] \<Rightarrow> True
     | c # cs \<Rightarrow>
         c \<noteq> CHR '' '' \<and> c \<noteq> CHR 0x09 \<and> c \<noteq> CHR ''+'' \<and> c \<noteq> CHR ''-''
         \<and> (case digit_val c of None \<Rightarrow> True | Some dig \<Rightarrow> 16 \<le> dig))"

subsection \<open>Concrete machines\<close>

text \<open>
  A machine with a two-frame stack (frames at \<open>0x1000\<close> and \<open>0x2000\<close>), a page table that
  maps the page at \<open>0x1000\<close> writable and user-accessible and nothing else, and whose state
  counts the page tables that \<open>pgdir_walk\<close> has created.
\<close>

definition stack_mem :: "addr \<Rightarrow> 32 word" where
  "stack_mem a =
    (if a = 0x1000 then 0x2000
     else if a = 0x1004 then 0xf0100068
     else if a = 0x1008 then 5
     else if a = 0x2004 then 0xf0100a6a
     else 0)"

definition symbols :: "addr \<Rightarrow> Eipdebuginfo" where
  "symbols eip =
    (if eip = 0xf0100068
     then \<lparr>eip_file = ''kern/init.c'', eip_line = 24, eip_fn_name = ''test_backtrace'',
           eip_fn_namelen = 14, eip_fn_addr = 0xf0100040, eip_fn_narg = 1\<rparr>
     else \<lparr>eip_file = ''kern/monitor.c'', eip_line = 143, eip_fn_name = ''monitor'',
           eip_fn_namelen = 7, eip_fn_addr = 0xf0100a00, eip_fn_narg = 1\<rparr>)"

definition env1 :: "nat env" where
  "env1 =
    \<lparr>read_ebp = 0x1000, mem = stack_mem, debuginfo_eip = symbols,
     pgdir_walk = (\<lambda>t va create.
       (if drop_bit 12 va = 1 then Some 0x5007 else None, if create then Suc t else t)),
     page_lookup = (\<lambda>t va.
       (if drop_bit 12 va = 1 then Some (\<lparr>page2pa = 0x5000, pp_ref = 1\<rparr>, 0x5007) else None, t)),
     sizeof_uintptr_t = 4, PTE_W = 0x002, PTE_U = 0x004,
     ROUNDUP = (\<lambda>a n. (a + n - 1) - (a + n - 1) mod n),
     KERNBASE = 0xF0000000, sym_start = 0x0010000c, sym_entry = 0xf010000c,
     sym_etext = 0xf0101a75, sym_edata = 0xf0112300, sym_end = 0xf0112960\<rparr>"

text \<open>The same machine with a frame at \<open>0x1000\<close> whose saved frame pointer is \<open>0x1000\<close>.\<close>

definition cyclic_mem :: "addr \<Rightarrow> 32 word" where
  "cyclic_mem a = 0x1000"

definition env_cyclic :: "nat env" where
  "env_cyclic = env1\<lparr>mem := cyclic_mem\<rparr>"

definition s0 :: "nat mstate" where
  "s0 = \<lparr>console = [], queries = [], kern_pgdir = 0\<rparr>"

text \<open>A command table with a command that makes the monitor exit.\<close>

definition exit_commands :: "nat Command list" where
  "exit_commands =
    [\<lparr>name = ''exit'', desc = ''Leave the monitor'', func = (\<lambda>argv s. Some (- 1, s))\<rparr>]"

section \<open>The stack backtrace\<close>

subsection \<open>The loop and frame-pointer chains\<close>

lemma backtrace_body_console:
  "backtrace_body e s ebp = s\<lparr>console := console s @ frame_events e ebp\<rparr>"
  by (simp add: backtrace_body_def frame_events_def cprintf_def Let_def)

lemma backtrace_loop_chain:
  "chain (mem e) ebp d \<Longrightarrow>
   backtrace_loop e s ebp =
     Some (s\<lparr>console := console s @ concat (map (frame_events e) (frames (mem e) ebp d))\<rparr>)"
proof (induction d arbitrary: s ebp)
  case 0
  then show ?case by (subst backtrace_loop.simps) simp
next
  case (Suc d)
  then show ?case
    by (subst backtrace_loop.simps) (simp add: backtrace_body_console)
qed

lemma backtrace_loop_Some_chain:
  assumes "backtrace_loop e s ebp = Some s'"
  shows "\<exists>d. chain (mem e) ebp d"
proof (rule backtrace_loop.raw_induct
    [where P = "\<lambda>e s ebp s'. \<exists>d. chain (mem e) ebp d", OF _ assms])
  fix loop :: "'a env \<Rightarrow> 'a mstate \<Rightarrow> addr \<Rightarrow> 'a mstate option"
  fix e s ebp s'
  assume IH: "\<And>e s ebp s'. loop e s ebp = Some s' \<Longrightarrow> \<exists>d. chain (mem e) ebp d"
  assume step: "(if ebp \<noteq> 0 then loop e (backtrace_body e s ebp) (mem e ebp) else Some s) = Some s'"
  show "\<exists>d. chain (mem e) ebp d"
  proof (cases "ebp = 0")
    case True
    then have "chain (mem e) ebp 0" by simp
    then show ?thesis ..
  next
    case False
    with step have "loop e (backtrace_body e s ebp) (mem e ebp) = Some s'" by simp
    then obtain d where "chain (mem e) (mem e ebp) d" using IH by blast
    with False have "chain (mem e) ebp (Suc d)" by simp
    then show ?thesis ..
  qed
qed

lemma length_frames: "length (frames m ebp d) = d"
  by (induction d arbitrary: ebp) simp_all

lemma env1_fields:
  "read_ebp env1 = 0x1000" "mem env1 = stack_mem" "debuginfo_eip env1 = symbols"
  "sizeof_uintptr_t env1 = 4" "PTE_W env1 = 2" "PTE_U env1 = 4"
  by (simp_all add: env1_def)

lemma chain_stack_mem: "chain stack_mem 0x1000 (Suc (Suc 0))"
  by (simp add: stack_mem_def)

lemma frames_stack_mem: "frames stack_mem 0x1000 (Suc (Suc 0)) = [0x1000, 0x2000]"
  by (simp add: stack_mem_def)

lemma chain_env1: "chain (mem env1) (read_ebp env1) 2"
  using chain_stack_mem by (simp only: env1_fields numeral_2_eq_2)

lemma frames_env1: "frames (mem env1) (read_ebp env1) 2 = [0x1000, 0x2000]"
  using frames_stack_mem by (simp only: env1_fields numeral_2_eq_2)

lemma no_chain_cyclic: "\<not> chain cyclic_mem 0x1000 d"
  by (induction d) (simp_all add: cyclic_mem_def)

subsection \<open>Depth of the backtrace\<close>

text \<open>
  C7. When the frame-pointer chain from the current frame pointer reaches the zero
  sentinel after \<open>d\<close> frames, \<open>mon_backtrace\<close> returns (with 0) after printing exactly
  these \<open>d\<close> frames, the innermost first, and nothing else.
\<close>

theorem backtrace_depth:
  assumes "chain (mem e) (read_ebp e) d"
  shows "mon_backtrace e argv s =
           Some (0, s\<lparr>console := console s
                   @ concat (map (frame_events e) (frames (mem e) (read_ebp e) d))\<rparr>)
         \<and> length (frames (mem e) (read_ebp e) d) = d"
proof
  have "backtrace_loop e s (read_ebp e) =
      Some (s\<lparr>console := console s
              @ concat (map (frame_events e) (frames (mem e) (read_ebp e) d))\<rparr>)"
    using assms by (rule backtrace_loop_chain)
  then show "mon_backtrace e argv s =
      Some (0, s\<lparr>console := console s
                 @ concat (map (frame_events e) (frames (mem e) (read_ebp e) d))\<rparr>)"
    by (simp add: mon_backtrace_def)
  show "length (frames (mem e) (read_ebp e) d) = d" by (rule length_frames)
qed

theorem backtrace_depth_witness:
  "mon_backtrace env1 [''backtrace''] s0 =
     Some (0, s0\<lparr>console := console s0 @ frame_events env1 0x1000 @ frame_events env1 0x2000\<rparr>)
   \<and> frames (mem env1) (read_ebp env1) 2 = [0x1000, 0x2000]"
  using backtrace_depth [OF chain_env1, of "[''backtrace'']" s0]
  by (simp add: frames_env1)

subsection \<open>Termination of the backtrace\<close>

text \<open>
  C3, as the code has it. The loop has no bound on its iterations: \<open>mon_backtrace\<close>
  returns exactly when the frame-pointer chain from the current frame pointer reaches
  the zero sentinel after finitely many frames.
\<close>

theorem backtrace_terminates_iff:
  "(\<exists>r s'. mon_backtrace e argv s = Some (r, s')) \<longleftrightarrow> (\<exists>d. chain (mem e) (read_ebp e) d)"
proof
  assume "\<exists>r s'. mon_backtrace e argv s = Some (r, s')"
  then obtain s' where "backtrace_loop e s (read_ebp e) = Some s'"
    by (auto simp: mon_backtrace_def split: option.splits)
  then show "\<exists>d. chain (mem e) (read_ebp e) d" by (rule backtrace_loop_Some_chain)
next
  assume "\<exists>d. chain (mem e) (read_ebp e) d"
  then obtain d where "chain (mem e) (read_ebp e) d" ..
  then show "\<exists>r s'. mon_backtrace e argv s = Some (r, s')"
    by (simp add: mon_backtrace_def backtrace_loop_chain)
qed

theorem backtrace_terminates_iff_witness:
  "(\<exists>r s'. mon_backtrace env1 [''backtrace''] s0 = Some (r, s'))
   \<and> chain (mem env1) (read_ebp env1) 2"
  using backtrace_terminates_iff [of env1 "[''backtrace'']" s0] chain_env1 by blast

text \<open>
  C3, as the specification states it, fails: on a frame whose saved frame pointer is the frame
  itself, \<open>mon_backtrace\<close> never returns.
\<close>

theorem backtrace_cyclic_counterexample:
  "read_ebp env_cyclic = 0x1000 \<and> mem env_cyclic 0x1000 = 0x1000
   \<and> mon_backtrace env_cyclic [''backtrace''] s0 = None"
proof (cases "backtrace_loop env_cyclic s0 (read_ebp env_cyclic)")
  case None
  then show ?thesis by (simp add: mon_backtrace_def env_cyclic_def env1_def cyclic_mem_def)
next
  case (Some s')
  then have "\<exists>d. chain (mem env_cyclic) (read_ebp env_cyclic) d"
    by (rule backtrace_loop_Some_chain)
  then show ?thesis by (simp add: env_cyclic_def env1_def no_chain_cyclic)
qed

subsection \<open>The symbol line\<close>

text \<open>
  C2. The number printed after \<open>+\<close> is meant to be the return address minus the start
  address of the function. On the two-frame stack the innermost return address is
  \<open>0xf0100068\<close> in a function that starts at \<open>0xf0100040\<close>: the offset is \<open>0x28\<close>, and
  the code prints the start address \<open>0xf0100040\<close> itself.
\<close>

theorem backtrace_prints_fn_addr:
  "mon_backtrace env1 [''backtrace''] s0 =
     Some (0, s0\<lparr>console :=
       [Cprintf ''ebp %08x eip %08x args %08x %08x %08x %08x %08x\<newline>''
          [ArgInt 0x1000, ArgInt 0xf0100068, ArgInt 5, ArgInt 0, ArgInt 0, ArgInt 0, ArgInt 0],
        Cprintf ''%s:%d'' [ArgStr ''kern/init.c'', ArgInt 24],
        Cprintf '': %.*s+%d\<newline>'' [ArgInt 14, ArgStr ''test_backtrace'', ArgInt 0xf0100040],
        Cprintf ''ebp %08x eip %08x args %08x %08x %08x %08x %08x\<newline>''
          [ArgInt 0x2000, ArgInt 0xf0100a6a, ArgInt 0, ArgInt 0, ArgInt 0, ArgInt 0, ArgInt 0],
        Cprintf ''%s:%d'' [ArgStr ''kern/monitor.c'', ArgInt 143],
        Cprintf '': %.*s+%d\<newline>'' [ArgInt 7, ArgStr ''monitor'', ArgInt 0xf0100a00]]\<rparr>)
   \<and> mem env1 (0x1000 + 4) - eip_fn_addr (debuginfo_eip env1 (mem env1 (0x1000 + 4))) = 0x28"
proof -
  have "backtrace_loop env1 s0 (read_ebp env1) =
      Some (s0\<lparr>console := console s0 @ frame_events env1 0x1000 @ frame_events env1 0x2000\<rparr>)"
    using backtrace_loop_chain [OF chain_env1, of s0] by (simp add: frames_env1)
  then show ?thesis
    by (simp add: mon_backtrace_def env1_fields stack_mem_def symbols_def s0_def frame_events_def)
qed

section \<open>The address range inspector\<close>

subsection \<open>One address\<close>

lemma showva2pa_body_console:
  "\<exists>ev. console (showva2pa_body e s va) = console s @ [ev] \<and> report_va ev = Some va"
  by (simp add: showva2pa_body_def do_pgdir_walk_def do_page_lookup_def cprintf_def Let_def
      split: prod.splits option.splits)

lemma showva2pa_body_queries:
  "\<exists>qs. queries (showva2pa_body e s va) = queries s @ qs \<and> list_all no_create qs"
  by (simp add: showva2pa_body_def do_pgdir_walk_def do_page_lookup_def cprintf_def Let_def
      split: prod.splits option.splits)

lemma showva2pa_body_pgdir:
  "read_only e \<Longrightarrow> kern_pgdir (showva2pa_body e s va) = kern_pgdir s"
proof -
  assume ro: "read_only e"
  have w: "snd (pgdir_walk e t va False) = t" for t using ro by (simp add: read_only_def)
  have l: "snd (page_lookup e t va) = t" for t using ro by (simp add: read_only_def)
  show ?thesis
    using w [of "kern_pgdir s"] l [of "kern_pgdir s"]
    by (auto simp: showva2pa_body_def do_pgdir_walk_def do_page_lookup_def cprintf_def Let_def
        split: prod.splits option.splits)
qed

lemma foldl_body_console:
  "\<exists>evs. console (foldl (showva2pa_body e) s vas) = console s @ evs
     \<and> map report_va evs = map Some vas"
proof (induction vas arbitrary: s)
  case Nil
  then show ?case by simp
next
  case (Cons va vas)
  obtain ev where ev: "console (showva2pa_body e s va) = console s @ [ev]" "report_va ev = Some va"
    using showva2pa_body_console by blast
  obtain evs where evs: "console (foldl (showva2pa_body e) (showva2pa_body e s va) vas)
      = console (showva2pa_body e s va) @ evs" "map report_va evs = map Some vas"
    using Cons.IH by blast
  have "console (foldl (showva2pa_body e) s (va # vas)) = console s @ (ev # evs)
      \<and> map report_va (ev # evs) = map Some (va # vas)"
    using ev evs by simp
  then show ?case by blast
qed

subsection \<open>The walk over a range\<close>

lemma unat_add_stride:
  fixes va :: addr
  assumes "unat va + d < 2 ^ 32"
  shows "unat (va + word_of_nat d) = unat va + d"
proof -
  have "d < 2 ^ 32" using assms by simp
  then have "unat (word_of_nat d :: addr) = d" by (simp add: unat_of_nat take_bit_nat_eq_self)
  then show ?thesis using assms by (simp add: unat_word_ariths)
qed

lemma showva2pa_loop_strided:
  fixes va high :: addr
  assumes d: "0 < d" "word_of_nat d = stride e" and nowrap: "unat high + d < 2 ^ 32"
    and le: "va \<le> high"
  shows "showva2pa_loop e s va high = Some (foldl (showva2pa_body e) s (strided va high d))"
  using le
proof (induction "(unat high - unat va) div d" arbitrary: va s)
  case 0
  then have lt: "unat high - unat va < d" using d(1) by (simp add: div_eq_0_iff)
  have le': "unat va \<le> unat high" using "0.prems" by (simp add: word_le_nat_alt)
  have "unat (va + stride e) = unat va + d"
    using unat_add_stride [of va d] nowrap le' by (simp add: d(2))
  then have gt: "\<not> va + stride e \<le> high" using lt le' by (simp add: word_le_nat_alt)
  have "showva2pa_loop e s va high = showva2pa_loop e (showva2pa_body e s va) (va + stride e) high"
    using "0.prems" by (subst showva2pa_loop.simps) simp
  also have "\<dots> = Some (showva2pa_body e s va)"
    using gt by (subst showva2pa_loop.simps) simp
  finally show ?case using "0.hyps" by (simp add: strided_def)
next
  case (Suc n)
  have le': "unat va \<le> unat high" using Suc.prems by (simp add: word_le_nat_alt)
  have ge: "d \<le> unat high - unat va"
  proof (rule ccontr)
    assume "\<not> d \<le> unat high - unat va"
    then have "(unat high - unat va) div d = 0" by simp
    with Suc.hyps(2) show False by simp
  qed
  have un: "unat (va + stride e) = unat va + d"
    using unat_add_stride [of va d] nowrap le' by (simp add: d(2))
  then have next_le: "va + stride e \<le> high" using ge le' by (simp add: word_le_nat_alt)
  have "(unat high - unat (va + stride e)) div d = (unat high - unat va - d) div d"
    by (simp add: un)
  also have "\<dots> = (unat high - unat va) div d - 1"
    using ge d(1) by (simp add: le_div_geq)
  finally have n: "n = (unat high - unat (va + stride e)) div d" using Suc.hyps(2) by simp
  have shift: "strided va high d = va # strided (va + stride e) high d"
  proof -
    define f :: "nat \<Rightarrow> addr" where "f = (\<lambda>k. va + word_of_nat (k * d))"
    define g :: "nat \<Rightarrow> addr" where "g = (\<lambda>k. (va + stride e) + word_of_nat (k * d))"
    have upt: "[0 ..< Suc (Suc n)] = 0 # map Suc [0 ..< Suc n]"
      by (simp only: map_Suc_upt upt_conv_Cons [of 0 "Suc (Suc n)"] zero_less_Suc)
    have fg: "f (Suc k) = g k" for k
      by (simp add: f_def g_def d(2) [symmetric] algebra_simps)
    have "strided va high d = map f [0 ..< Suc (Suc n)]"
      by (simp only: strided_def f_def Suc.hyps(2) [symmetric])
    also have "\<dots> = f 0 # map (\<lambda>k. f (Suc k)) [0 ..< Suc n]"
      by (simp only: upt list.map map_map comp_def)
    also have "\<dots> = va # map g [0 ..< Suc n]"
      by (simp only: fg) (simp add: f_def)
    also have "map g [0 ..< Suc n] = strided (va + stride e) high d"
      by (simp only: strided_def g_def n)
    finally show ?thesis .
  qed
  have "showva2pa_loop e s va high = showva2pa_loop e (showva2pa_body e s va) (va + stride e) high"
    using Suc.prems by (subst showva2pa_loop.simps) simp
  also have "\<dots> = Some (foldl (showva2pa_body e) (showva2pa_body e s va)
      (strided (va + stride e) high d))"
    using n next_le by (rule Suc.hyps(1))
  finally show ?case by (simp add: shift)
qed

lemma unat_strided:
  fixes low high :: addr
  assumes "unat high + d < 2 ^ 32" "low \<le> high"
  shows "map unat (strided low high d) =
         map (\<lambda>k. unat low + k * d) [0 ..< Suc ((unat high - unat low) div d)]"
proof -
  have le: "unat low \<le> unat high" using assms(2) by (simp add: word_le_nat_alt)
  have "unat (low + word_of_nat (k * d)) = unat low + k * d"
    if "k < Suc ((unat high - unat low) div d)" for k
  proof -
    have "k * d \<le> (unat high - unat low) div d * d" using that by simp
    also have "\<dots> \<le> unat high - unat low" by simp
    finally have "unat low + k * d \<le> unat high" using le by simp
    then have "unat low + k * d < 2 ^ 32" using assms(1) by simp
    then show ?thesis by (rule unat_add_stride)
  qed
  then show ?thesis by (simp add: strided_def)
qed

lemma showva2pa_loop_single:
  assumes "stride e \<noteq> 0"
  shows "showva2pa_loop e s 0 0 = Some (showva2pa_body e s 0)"
proof -
  have "showva2pa_loop e s 0 0 = showva2pa_loop e (showva2pa_body e s 0) (0 + stride e) 0"
    by (subst showva2pa_loop.simps) simp
  also have "\<dots> = Some (showva2pa_body e s 0)"
    using assms by (subst showva2pa_loop.simps) simp
  finally show ?thesis .
qed

text \<open>
  When the increment wraps around, the walk does not return. With a stride of 4096 bytes
  and an upper bound in the last page of the address space, a page-aligned \<open>va\<close> is never
  above the bound.
\<close>

lemma aligned_le_top:
  fixes va :: addr
  assumes "unat va mod 4096 = 0"
  shows "va \<le> 0xfffff000"
proof -
  have "unat va < 4294967296" using unsigned_less [of va] by simp
  then have "unat va div 4096 < 1048576" by (simp add: div_less_iff_less_mult)
  moreover have "4096 * (unat va div 4096) = unat va"
    using mult_div_mod_eq [of 4096 "unat va"] assms by simp
  ultimately have "unat va \<le> 4294963200" by linarith
  then show ?thesis by (simp add: word_le_nat_alt)
qed

lemma aligned_add_page:
  fixes va :: addr
  assumes "unat va mod 4096 = 0"
  shows "unat (va + 0x1000) mod 4096 = 0"
proof -
  have "unat (va + 0x1000) = (unat va + 4096) mod 4294967296" by (simp add: unat_word_ariths)
  moreover have "(unat va + 4096) mod 4294967296 mod 4096 = (unat va + 4096) mod 4096"
    by (rule mod_mod_cancel) simp
  ultimately show ?thesis using assms by simp
qed

lemma showva2pa_loop_wraps:
  assumes "stride e = 0x1000" and "unat va mod 4096 = 0"
  shows "showva2pa_loop e s va 0xfffff000 = None"
proof (cases "showva2pa_loop e s va 0xfffff000")
  case None
  then show ?thesis .
next
  case (Some s')
  have "\<not> (stride e = 0x1000 \<and> 0xfffff000 = (0xfffff000 :: addr) \<and> unat va mod 4096 = 0)"
  proof (rule showva2pa_loop.raw_induct
      [where P = "\<lambda>e s va high s'. \<not> (stride e = 0x1000 \<and> high = 0xfffff000 \<and> unat va mod 4096 = 0)",
       OF _ Some])
    fix loop :: "'a env \<Rightarrow> 'a mstate \<Rightarrow> addr \<Rightarrow> addr \<Rightarrow> 'a mstate option"
    fix e s va high s'
    assume IH: "\<And>e s va high s'. loop e s va high = Some s' \<Longrightarrow>
        \<not> (stride e = 0x1000 \<and> high = 0xfffff000 \<and> unat va mod 4096 = 0)"
    assume step: "(if va \<le> high then loop e (showva2pa_body e s va) (va + stride e) high
                   else Some s) = Some s'"
    show "\<not> (stride e = 0x1000 \<and> high = 0xfffff000 \<and> unat va mod 4096 = 0)"
    proof
      assume a: "stride e = 0x1000 \<and> high = 0xfffff000 \<and> unat va mod 4096 = 0"
      then have "va \<le> high" using aligned_le_top by simp
      with step have "loop e (showva2pa_body e s va) (va + stride e) high = Some s'" by simp
      from IH [OF this] a show False using aligned_add_page by simp
    qed
  qed
  with assms show ?thesis by simp
qed

subsection \<open>The walk on the concrete machine\<close>

lemma env1_pt:
  "pgdir_walk env1 = (\<lambda>t va create.
       (if drop_bit 12 va = 1 then Some 0x5007 else None, if create then Suc t else t))"
  "page_lookup env1 = (\<lambda>t va.
       (if drop_bit 12 va = 1 then Some (\<lparr>page2pa = 0x5000, pp_ref = 1\<rparr>, 0x5007) else None, t))"
  "sizeof_uintptr_t env1 = 4" "PTE_W env1 = 2" "PTE_U env1 = 4"
  by (simp_all add: env1_def)

lemma strtol_1000: "strtol ''1000'' 16 = 0x1000" "strtol ''2000'' 16 = 0x2000"
  by (simp_all add: strtol_def digit_val_def Let_def)

lemma body_env1_1000:
  "showva2pa_body env1 s 0x1000 =
     s\<lparr>console := console s @ [Cprintf ''VA: 0x%x, PA: 0x%x, pp_ref: %d, PTE_W: %d, PTE_U: %d\<newline>''
          [ArgInt 0x1000, ArgInt 0x5000, ArgInt 1, ArgInt 1, ArgInt 1]],
       queries := queries s @ [Q_pgdir_walk 0x1000 False, Q_page_lookup 0x1000]\<rparr>"
  by (simp add: showva2pa_body_def do_pgdir_walk_def do_page_lookup_def cprintf_def env1_pt
      drop_bit_eq_div)

lemma body_env1_2000:
  "showva2pa_body env1 s 0x2000 =
     s\<lparr>console := console s @ [Cprintf ''VA: %x does not have a mapped physical page!\<newline>''
          [ArgInt 0x2000]],
       queries := queries s @ [Q_pgdir_walk 0x2000 False]\<rparr>"
  by (simp add: showva2pa_body_def do_pgdir_walk_def do_page_lookup_def cprintf_def env1_pt
      drop_bit_eq_div)

lemma loop_env1:
  "showva2pa_loop env1 s 0x1000 0x2000 =
     Some (showva2pa_body env1 (showva2pa_body env1 s 0x1000) 0x2000)"
proof -
  have st: "stride env1 = 0x1000" by (simp add: stride_def env1_pt)
  have "showva2pa_loop env1 s 0x1000 0x2000 =
      showva2pa_loop env1 (showva2pa_body env1 s 0x1000) 0x2000 0x2000"
    by (subst showva2pa_loop.simps) (simp add: st)
  also have "\<dots> = showva2pa_loop env1
      (showva2pa_body env1 (showva2pa_body env1 s 0x1000) 0x2000) 0x3000 0x2000"
    by (subst showva2pa_loop.simps) (simp add: st)
  also have "\<dots> = Some (showva2pa_body env1 (showva2pa_body env1 s 0x1000) 0x2000)"
    by (subst showva2pa_loop.simps) simp
  finally show ?thesis .
qed

lemma walk_env1:
  "mon_showva2pa env1 [''showva2pa'', ''1000'', ''2000''] s0 =
     Some (0, \<lparr>console =
         [Cprintf ''VA: 0x%x, PA: 0x%x, pp_ref: %d, PTE_W: %d, PTE_U: %d\<newline>''
            [ArgInt 0x1000, ArgInt 0x5000, ArgInt 1, ArgInt 1, ArgInt 1],
          Cprintf ''VA: %x does not have a mapped physical page!\<newline>'' [ArgInt 0x2000]],
       queries = [Q_pgdir_walk 0x1000 False, Q_page_lookup 0x1000, Q_pgdir_walk 0x2000 False],
       kern_pgdir = 0\<rparr>)"
  by (simp add: mon_showva2pa_def showva2pa_range_def strtol_1000 loop_env1 body_env1_1000
      body_env1_2000 s0_def)

lemma showva2pa_last_page_never_returns:
  "mon_showva2pa env1 [''showva2pa'', ''fffff000''] s0 = None"
proof -
  have "strtol ''fffff000'' 16 = 0xfffff000" by (simp add: strtol_def digit_val_def Let_def)
  moreover have "showva2pa_loop env1 s0 0xfffff000 0xfffff000 = None"
    by (rule showva2pa_loop_wraps) (simp_all add: stride_def env1_pt)
  ultimately show ?thesis by (simp add: mon_showva2pa_def showva2pa_range_def)
qed

subsection \<open>Stride of the walk\<close>

text \<open>
  C1, as the code has it. \<open>va\<close> is a pointer to \<open>uintptr_t\<close>, so \<open>va += 1024\<close> moves the
  address by \<open>1024 * sizeof(uintptr_t)\<close> bytes: 4096 bytes on the 32-bit target, not
  1024. For a range \<open>low \<le> high\<close> whose upper bound is far enough from the top of the
  address space for the increment not to wrap around, the walk returns, and it prints
  exactly one report line for each of the addresses \<open>low\<close>, \<open>low + d\<close>, \<open>low + 2 * d\<close>, ...
  that do not exceed \<open>high\<close>, in increasing order, where \<open>d = 1024 * sizeof(uintptr_t)\<close>.
  So \<open>high\<close> is itself reported only when \<open>high - low\<close> is a multiple of \<open>d\<close>.
\<close>

theorem showva2pa_walk_strided:
  fixes low high :: addr
  assumes "0 < sizeof_uintptr_t e" and "unat high + 1024 * sizeof_uintptr_t e < 2 ^ 32"
    and "low \<le> high"
  shows "\<exists>s' evs. showva2pa_loop e s low high = Some s' \<and> console s' = console s @ evs
           \<and> map report_va evs = map Some (strided low high (1024 * sizeof_uintptr_t e))
           \<and> map unat (strided low high (1024 * sizeof_uintptr_t e)) =
               map (\<lambda>k. unat low + k * (1024 * sizeof_uintptr_t e))
                 [0 ..< Suc ((unat high - unat low) div (1024 * sizeof_uintptr_t e))]"
proof -
  let ?d = "1024 * sizeof_uintptr_t e"
  have "0 < ?d" using assms(1) by simp
  moreover have "word_of_nat ?d = stride e" by (simp add: stride_def)
  ultimately have "showva2pa_loop e s low high =
      Some (foldl (showva2pa_body e) s (strided low high ?d))"
    using assms(2,3) by (rule showva2pa_loop_strided)
  moreover obtain evs where
    "console (foldl (showva2pa_body e) s (strided low high ?d)) = console s @ evs"
    "map report_va evs = map Some (strided low high ?d)"
    using foldl_body_console by blast
  ultimately show ?thesis using unat_strided [OF assms(2,3)] by blast
qed

theorem showva2pa_walk_strided_witness:
  "\<exists>s' evs. showva2pa_loop env1 s0 0x1000 0x2000 = Some s' \<and> console s' = console s0 @ evs
     \<and> map report_va evs = [Some 0x1000, Some 0x2000]
     \<and> map unat (strided 0x1000 0x2000 4096 :: addr list) = [4096, 8192]"
proof -
  have h1: "0 < sizeof_uintptr_t env1" by (simp add: env1_pt)
  have h2: "unat (0x2000 :: addr) + 1024 * sizeof_uintptr_t env1 < 2 ^ 32" by (simp add: env1_pt)
  have h3: "(0x1000 :: addr) \<le> 0x2000" by simp
  have st: "strided 0x1000 0x2000 4096 = [0x1000, 0x2000 :: addr]"
    by (simp add: strided_def)
  show ?thesis
    using showva2pa_walk_strided [OF h1 h2 h3, of s0] by (simp add: env1_pt st)
qed

text \<open>
  C1, as the specification states it, fails. On the 32-bit target, \<open>showva2pa 1000 2000\<close> prints
  two lines, for \<open>0x1000\<close> and \<open>0x2000\<close>; the addresses \<open>0x1400\<close>, \<open>0x1800\<close> and \<open>0x1c00\<close>
  of a 1024-byte stride get no line.
\<close>

theorem showva2pa_stride_counterexample:
  "sizeof_uintptr_t env1 = 4
   \<and> mon_showva2pa env1 [''showva2pa'', ''1000'', ''2000''] s0 =
     Some (0, \<lparr>console =
         [Cprintf ''VA: 0x%x, PA: 0x%x, pp_ref: %d, PTE_W: %d, PTE_U: %d\<newline>''
            [ArgInt 0x1000, ArgInt 0x5000, ArgInt 1, ArgInt 1, ArgInt 1],
          Cprintf ''VA: %x does not have a mapped physical page!\<newline>'' [ArgInt 0x2000]],
       queries = [Q_pgdir_walk 0x1000 False, Q_page_lookup 0x1000, Q_pgdir_walk 0x2000 False],
       kern_pgdir = 0\<rparr>)
   \<and> strided 0x1000 0x2000 1024 = [0x1000, 0x1400, 0x1800, 0x1c00, 0x2000]
   \<and> map report_va
        [Cprintf ''VA: 0x%x, PA: 0x%x, pp_ref: %d, PTE_W: %d, PTE_U: %d\<newline>''
            [ArgInt 0x1000, ArgInt 0x5000, ArgInt 1, ArgInt 1, ArgInt 1],
          Cprintf ''VA: %x does not have a mapped physical page!\<newline>'' [ArgInt 0x2000]]
       \<noteq> map Some [0x1000, 0x1400, 0x1800, 0x1c00, 0x2000]"
proof -
  have "[0 ..< 5] = [0, 1, 2, 3, 4 :: nat]" by (simp add: upt_rec)
  then have "strided 0x1000 0x2000 1024 = [0x1000, 0x1400, 0x1800, 0x1c00, 0x2000]"
    by (simp add: strided_def)
  then show ?thesis by (simp add: walk_env1 env1_pt)
qed

subsection \<open>Order of the two addresses\<close>

text \<open>
  C4. With two address tokens \<open>a\<close> and \<open>b\<close> the output, the return code and the final
  state are the same whichever token comes first, because the bounds are put in order
  before the walk: the range is from the smaller to the larger of the two parsed
  addresses (compared as unsigned pointers), and the command is the walk over exactly
  that range.
\<close>

theorem showva2pa_order_independent:
  "mon_showva2pa e [c, a, b] s = mon_showva2pa e [c, b, a] s
   \<and> showva2pa_range [c, a, b] =
       (min (strtol a 16) (strtol b 16), max (strtol a 16) (strtol b 16))
   \<and> showva2pa_range [c, b, a] =
       (min (strtol a 16) (strtol b 16), max (strtol a 16) (strtol b 16))
   \<and> mon_showva2pa e [c, a, b] s =
       (case showva2pa_loop e s (min (strtol a 16) (strtol b 16))
               (max (strtol a 16) (strtol b 16)) of
          None \<Rightarrow> None | Some s' \<Rightarrow> Some (0, s'))"
proof (intro conjI)
  show ab: "showva2pa_range [c, a, b] =
      (min (strtol a 16) (strtol b 16), max (strtol a 16) (strtol b 16))"
    by (auto simp: showva2pa_range_def min_def max_def)
  show ba: "showva2pa_range [c, b, a] =
      (min (strtol a 16) (strtol b 16), max (strtol a 16) (strtol b 16))"
    by (auto simp: showva2pa_range_def min_def max_def)
  show "mon_showva2pa e [c, a, b] s = mon_showva2pa e [c, b, a] s"
    by (simp add: mon_showva2pa_def ab ba)
  show "mon_showva2pa e [c, a, b] s =
      (case showva2pa_loop e s (min (strtol a 16) (strtol b 16))
              (max (strtol a 16) (strtol b 16)) of
         None \<Rightarrow> None | Some s' \<Rightarrow> Some (0, s'))"
    by (simp add: mon_showva2pa_def ab)
qed

theorem showva2pa_order_independent_witness:
  "mon_showva2pa env1 [''showva2pa'', ''2000'', ''1000''] s0 =
     Some (0, \<lparr>console =
         [Cprintf ''VA: 0x%x, PA: 0x%x, pp_ref: %d, PTE_W: %d, PTE_U: %d\<newline>''
            [ArgInt 0x1000, ArgInt 0x5000, ArgInt 1, ArgInt 1, ArgInt 1],
          Cprintf ''VA: %x does not have a mapped physical page!\<newline>'' [ArgInt 0x2000]],
       queries = [Q_pgdir_walk 0x1000 False, Q_page_lookup 0x1000, Q_pgdir_walk 0x2000 False],
       kern_pgdir = 0\<rparr>)
   \<and> showva2pa_range [''showva2pa'', ''2000'', ''1000''] = (0x1000, 0x2000)
   \<and> showva2pa_range [''showva2pa'', ''1000'', ''2000''] = (0x1000, 0x2000)"
proof -
  note inst = showva2pa_order_independent [of env1 "''showva2pa''" "''2000''" "''1000''" s0]
  have mm: "min (strtol ''2000'' 16) (strtol ''1000'' 16) = 0x1000"
    "max (strtol ''2000'' 16) (strtol ''1000'' 16) = 0x2000"
    by (simp_all add: strtol_1000)
  from inst have "mon_showva2pa env1 [''showva2pa'', ''2000'', ''1000''] s0 =
      mon_showva2pa env1 [''showva2pa'', ''1000'', ''2000''] s0" by blast
  moreover from inst have "showva2pa_range [''showva2pa'', ''2000'', ''1000''] = (0x1000, 0x2000)"
    unfolding mm by blast
  moreover from inst have "showva2pa_range [''showva2pa'', ''1000'', ''2000''] = (0x1000, 0x2000)"
    unfolding mm by blast
  ultimately show ?thesis by (simp add: walk_env1)
qed

subsection \<open>Number of arguments\<close>

text \<open>
  C6, as the code has it. With no address token (\<open>argc = 1\<close>) the handler prints
  \<open>At least one argument.\<close>, with three or more (\<open>argc \<ge> 4\<close>) it prints
  \<open>Too many arguments (max 2)\<close>; in both cases this is all it does: it makes no
  page-table query, leaves the page table alone and returns 0.
\<close>

theorem showva2pa_arg_count:
  "(length argv = 1 \<longrightarrow>
      mon_showva2pa e argv s =
        Some (0, s\<lparr>console := console s @ [Cprintf ''At least one argument.\<newline>'' []]\<rparr>))
   \<and> (4 \<le> length argv \<longrightarrow>
      mon_showva2pa e argv s =
        Some (0, s\<lparr>console := console s
                @ [Cprintf ''Too many arguments (max %d)\<newline>'' [ArgInt 2]]\<rparr>))"
proof (intro conjI impI)
  assume "length argv = 1"
  then show "mon_showva2pa e argv s =
      Some (0, s\<lparr>console := console s @ [Cprintf ''At least one argument.\<newline>'' []]\<rparr>)"
    by (simp add: mon_showva2pa_def cprintf_def)
next
  assume "4 \<le> length argv"
  then have "length argv \<noteq> 1" by simp
  with \<open>4 \<le> length argv\<close> show "mon_showva2pa e argv s =
      Some (0, s\<lparr>console := console s
              @ [Cprintf ''Too many arguments (max %d)\<newline>'' [ArgInt 2]]\<rparr>)"
    by (simp add: mon_showva2pa_def cprintf_def)
qed

theorem showva2pa_arg_count_witness:
  "mon_showva2pa env1 [''showva2pa''] s0 =
     Some (0, \<lparr>console = [Cprintf ''At least one argument.\<newline>'' []], queries = [],
               kern_pgdir = 0\<rparr>)
   \<and> mon_showva2pa env1 [''showva2pa'', ''1000'', ''2000'', ''3000''] s0 =
     Some (0, \<lparr>console = [Cprintf ''Too many arguments (max %d)\<newline>'' [ArgInt 2]],
               queries = [], kern_pgdir = 0\<rparr>)"
  using showva2pa_arg_count [of "[''showva2pa'']" env1 s0]
    showva2pa_arg_count [of "[''showva2pa'', ''1000'', ''2000'', ''3000'']" env1 s0]
  by (simp add: s0_def)

text \<open>
  C6, as the specification states it, fails on the text of the message: with no address token
  the output does not contain \<open>need at least one argument\<close>.
\<close>

theorem showva2pa_message_counterexample:
  "mon_showva2pa env1 [''showva2pa''] s0 =
     Some (0, \<lparr>console = [Cprintf ''At least one argument.\<newline>'' []], queries = [],
               kern_pgdir = 0\<rparr>)
   \<and> \<not> reports ''need at least one argument''
         [Cprintf ''At least one argument.\<newline>'' []]"
proof -
  have "\<not> sublist ''need at least one argument'' ''At least one argument.\<newline>''"
    by code_simp
  then show ?thesis by (simp add: mon_showva2pa_def cprintf_def s0_def reports_def)
qed

subsection \<open>The page table is only read\<close>

lemma foldl_body_frame:
  "(\<exists>qs. queries (foldl (showva2pa_body e) s vas) = queries s @ qs \<and> list_all no_create qs)
   \<and> (read_only e \<longrightarrow> kern_pgdir (foldl (showva2pa_body e) s vas) = kern_pgdir s)"
proof (induction vas arbitrary: s)
  case Nil
  then show ?case by simp
next
  case (Cons va vas)
  obtain qs0 where qs0: "queries (showva2pa_body e s va) = queries s @ qs0"
    "list_all no_create qs0"
    using showva2pa_body_queries by blast
  obtain qs where qs: "queries (foldl (showva2pa_body e) (showva2pa_body e s va) vas) =
      queries (showva2pa_body e s va) @ qs" "list_all no_create qs"
    using Cons.IH by blast
  have "queries (foldl (showva2pa_body e) s (va # vas)) = queries s @ (qs0 @ qs)
      \<and> list_all no_create (qs0 @ qs)"
    using qs0 qs by simp
  then have "\<exists>qs. queries (foldl (showva2pa_body e) s (va # vas)) = queries s @ qs
      \<and> list_all no_create qs" by blast
  moreover have "read_only e \<longrightarrow>
      kern_pgdir (foldl (showva2pa_body e) s (va # vas)) = kern_pgdir s"
    using Cons.IH [of "showva2pa_body e s va"] by (simp add: showva2pa_body_pgdir)
  ultimately show ?case by simp
qed

lemma showva2pa_loop_frame:
  assumes "showva2pa_loop e s va high = Some s'"
  shows "(\<exists>qs. queries s' = queries s @ qs \<and> list_all no_create qs)
         \<and> (read_only e \<longrightarrow> kern_pgdir s' = kern_pgdir s)"
proof (rule showva2pa_loop.raw_induct
    [where P = "\<lambda>e s va high s'. (\<exists>qs. queries s' = queries s @ qs \<and> list_all no_create qs)
         \<and> (read_only e \<longrightarrow> kern_pgdir s' = kern_pgdir s)", OF _ assms])
  fix loop :: "'a env \<Rightarrow> 'a mstate \<Rightarrow> addr \<Rightarrow> addr \<Rightarrow> 'a mstate option"
  fix e s va high s'
  assume IH: "\<And>e s va high s'. loop e s va high = Some s' \<Longrightarrow>
      (\<exists>qs. queries s' = queries s @ qs \<and> list_all no_create qs)
      \<and> (read_only e \<longrightarrow> kern_pgdir s' = kern_pgdir s)"
  assume step: "(if va \<le> high then loop e (showva2pa_body e s va) (va + stride e) high
                 else Some s) = Some s'"
  show "(\<exists>qs. queries s' = queries s @ qs \<and> list_all no_create qs)
        \<and> (read_only e \<longrightarrow> kern_pgdir s' = kern_pgdir s)"
  proof (cases "va \<le> high")
    case False
    with step have "s' = s" by simp
    then show ?thesis by simp
  next
    case True
    with step have "loop e (showva2pa_body e s va) (va + stride e) high = Some s'" by simp
    from IH [OF this] obtain qs where
      qs: "queries s' = queries (showva2pa_body e s va) @ qs" "list_all no_create qs" and
      pg: "read_only e \<longrightarrow> kern_pgdir s' = kern_pgdir (showva2pa_body e s va)"
      by blast
    obtain qs0 where qs0: "queries (showva2pa_body e s va) = queries s @ qs0"
      "list_all no_create qs0"
      using showva2pa_body_queries by blast
    have "queries s' = queries s @ (qs0 @ qs) \<and> list_all no_create (qs0 @ qs)"
      using qs qs0 by simp
    then have "\<exists>qs. queries s' = queries s @ qs \<and> list_all no_create qs" by blast
    moreover have "read_only e \<longrightarrow> kern_pgdir s' = kern_pgdir s"
      using pg by (simp add: showva2pa_body_pgdir)
    ultimately show ?thesis by simp
  qed
qed

lemma read_only_env1: "read_only env1"
  by (simp add: read_only_def env1_pt)

text \<open>
  C9. Whenever \<open>mon_showva2pa\<close> returns, every call of \<open>pgdir_walk\<close> it has made had
  \<open>create = 0\<close>, and it has itself written nothing to the page table: when the two
  page-table functions only read, the page-table state is what it was. The same holds
  after any number of iterations of the walk, on whatever addresses, so also on a walk
  that does not return.
\<close>

theorem showva2pa_read_only:
  "(mon_showva2pa e argv s = Some (r, s') \<longrightarrow>
      (\<exists>qs. queries s' = queries s @ qs \<and> list_all no_create qs)
      \<and> (read_only e \<longrightarrow> kern_pgdir s' = kern_pgdir s))
   \<and> (\<exists>qs. queries (foldl (showva2pa_body e) s vas) = queries s @ qs \<and> list_all no_create qs)
   \<and> (read_only e \<longrightarrow> kern_pgdir (foldl (showva2pa_body e) s vas) = kern_pgdir s)"
proof (intro conjI impI)
  assume ret: "mon_showva2pa e argv s = Some (r, s')"
  have "(\<exists>qs. queries s' = queries s @ qs \<and> list_all no_create qs)
      \<and> (read_only e \<longrightarrow> kern_pgdir s' = kern_pgdir s)"
  proof (cases "length argv = 1 \<or> 4 \<le> length argv")
    case True
    with ret have "queries s' = queries s" "kern_pgdir s' = kern_pgdir s"
      by (auto simp: mon_showva2pa_def cprintf_def split: if_splits)
    then show ?thesis by simp
  next
    case False
    with ret obtain lo hi where "showva2pa_loop e s lo hi = Some s'"
      by (auto simp: mon_showva2pa_def split: if_splits prod.splits option.splits)
    then show ?thesis by (rule showva2pa_loop_frame)
  qed
  then show "\<exists>qs. queries s' = queries s @ qs \<and> list_all no_create qs"
    and "read_only e \<Longrightarrow> kern_pgdir s' = kern_pgdir s"
    by simp_all
next
  show "\<exists>qs. queries (foldl (showva2pa_body e) s vas) = queries s @ qs \<and> list_all no_create qs"
    using foldl_body_frame by blast
next
  assume "read_only e"
  then show "kern_pgdir (foldl (showva2pa_body e) s vas) = kern_pgdir s"
    using foldl_body_frame by blast
qed

theorem showva2pa_read_only_witness:
  "read_only env1
   \<and> mon_showva2pa env1 [''showva2pa'', ''1000'', ''2000''] s0 =
     Some (0, \<lparr>console =
         [Cprintf ''VA: 0x%x, PA: 0x%x, pp_ref: %d, PTE_W: %d, PTE_U: %d\<newline>''
            [ArgInt 0x1000, ArgInt 0x5000, ArgInt 1, ArgInt 1, ArgInt 1],
          Cprintf ''VA: %x does not have a mapped physical page!\<newline>'' [ArgInt 0x2000]],
       queries = [Q_pgdir_walk 0x1000 False, Q_page_lookup 0x1000, Q_pgdir_walk 0x2000 False],
       kern_pgdir = 0\<rparr>)
   \<and> list_all no_create [Q_pgdir_walk 0x1000 False, Q_page_lookup 0x1000, Q_pgdir_walk 0x2000 False]
   \<and> kern_pgdir s0 = 0
   \<and> kern_pgdir (foldl (showva2pa_body env1) s0 [0x1000, 0x2000]) = 0"
proof -
  have "kern_pgdir (foldl (showva2pa_body env1) s0 [0x1000, 0x2000]) = kern_pgdir s0"
    using showva2pa_read_only [of env1 "[''showva2pa'', ''1000'', ''2000'']" s0 0 _ "[0x1000, 0x2000]"]
      read_only_env1
    by blast
  then show ?thesis using read_only_env1 walk_env1 by (simp add: s0_def)
qed

subsection \<open>Address tokens are not validated\<close>

lemma strtol_unparsable: "unparsable tok \<Longrightarrow> strtol tok 16 = 0"
proof (cases tok)
  case Nil
  then show ?thesis by (simp add: strtol_def)
next
  case (Cons c cs)
  assume "unparsable tok"
  with Cons have c: "c \<noteq> CHR '' ''" "c \<noteq> CHR 0x09" "c \<noteq> CHR ''+''" "c \<noteq> CHR ''-''"
    and dv: "case digit_val c of None \<Rightarrow> True | Some dig \<Rightarrow> 16 \<le> dig"
    by (simp_all add: unparsable_def)
  have "digit_val (CHR ''0'') = Some 0" by (simp add: digit_val_def)
  with dv have c0: "c \<noteq> CHR ''0''" by auto
  have dg: "strtol_digits 16 (c # cs) 0 = 0" using dv by (simp split: option.splits)
  show ?thesis using c c0 dg by (simp add: strtol_def Cons Let_def)
qed

text \<open>
  C10. Whatever the address tokens are, \<open>mon_showva2pa\<close> goes on to the walk over the
  range of the values \<open>strtol\<close> gives for them in base 16; there is no path on which a
  token is rejected. A token in which \<open>strtol\<close> can read nothing has the value 0, and
  the one-token command then reports on address 0.
\<close>

theorem showva2pa_no_validation:
  "mon_showva2pa e [c, tok] s =
     (case showva2pa_loop e s (strtol tok 16) (strtol tok 16) of
        None \<Rightarrow> None | Some s' \<Rightarrow> Some (0, s'))
   \<and> mon_showva2pa e [c, tok, tok'] s =
     (case showva2pa_loop e s (min (strtol tok 16) (strtol tok' 16))
             (max (strtol tok 16) (strtol tok' 16)) of
        None \<Rightarrow> None | Some s' \<Rightarrow> Some (0, s'))
   \<and> (unparsable tok \<longrightarrow> strtol tok 16 = 0
        \<and> (stride e \<noteq> 0 \<longrightarrow> mon_showva2pa e [c, tok] s = Some (0, showva2pa_body e s 0)))"
proof -
  have one: "mon_showva2pa e [c, tok] s =
     (case showva2pa_loop e s (strtol tok 16) (strtol tok 16) of
        None \<Rightarrow> None | Some s' \<Rightarrow> Some (0, s'))"
    by (simp add: mon_showva2pa_def showva2pa_range_def)
  have two: "mon_showva2pa e [c, tok, tok'] s =
     (case showva2pa_loop e s (min (strtol tok 16) (strtol tok' 16))
             (max (strtol tok 16) (strtol tok' 16)) of
        None \<Rightarrow> None | Some s' \<Rightarrow> Some (0, s'))"
    by (auto simp: mon_showva2pa_def showva2pa_range_def min_def max_def)
  have three: "strtol tok 16 = 0
      \<and> (stride e \<noteq> 0 \<longrightarrow> mon_showva2pa e [c, tok] s = Some (0, showva2pa_body e s 0))"
    if "unparsable tok"
    using strtol_unparsable [OF that] one by (simp add: showva2pa_loop_single)
  show ?thesis using one two three by blast
qed

theorem showva2pa_no_validation_witness:
  "unparsable ''zz'' \<and> strtol ''zz'' 16 = 0
   \<and> mon_showva2pa env1 [''showva2pa'', ''zz''] s0 =
     Some (0, \<lparr>console = [Cprintf ''VA: %x does not have a mapped physical page!\<newline>'' [ArgInt 0]],
               queries = [Q_pgdir_walk 0 False], kern_pgdir = 0\<rparr>)"
proof -
  have u: "unparsable ''zz''" by (simp add: unparsable_def digit_val_def)
  have st: "stride env1 \<noteq> 0" by (simp add: stride_def env1_pt)
  have "showva2pa_body env1 s0 0 =
      \<lparr>console = [Cprintf ''VA: %x does not have a mapped physical page!\<newline>'' [ArgInt 0]],
       queries = [Q_pgdir_walk 0 False], kern_pgdir = 0\<rparr>"
    by (simp add: showva2pa_body_def do_pgdir_walk_def cprintf_def env1_pt s0_def)
  moreover have "strtol ''zz'' 16 = 0
      \<and> mon_showva2pa env1 [''showva2pa'', ''zz''] s0 = Some (0, showva2pa_body env1 s0 0)"
    using showva2pa_no_validation [of env1 "''showva2pa''" "''zz''" s0] u st by blast
  ultimately show ?thesis using u by simp
qed

section \<open>The command interpreter\<close>

subsection \<open>The tokenizer computes the tokens of the line\<close>

lemma strchr_ws: "c \<noteq> NUL \<Longrightarrow> strchr WHITESPACE c = is_ws c"
  by (simp add: strchr_def is_ws_def)

lemma gobble_spec:
  "NUL \<notin> set (drop i b) \<Longrightarrow>
   gobble b i =
     (take i b @ replicate (length (takeWhile is_ws (drop i b))) NUL
        @ drop (i + length (takeWhile is_ws (drop i b))) b,
      i + length (takeWhile is_ws (drop i b)))"
proof (induction b i rule: gobble.induct)
  case (1 b i)
  show ?case
  proof (cases "i < length b")
    case False
    then show ?thesis by (subst gobble.simps) (simp add: rd_def)
  next
    case True
    then have d: "drop i b = b ! i # drop (Suc i) b" by (simp add: Cons_nth_drop_Suc)
    with 1(2) have nz: "b ! i \<noteq> NUL" and nf: "NUL \<notin> set (drop (Suc i) b)" by auto
    show ?thesis
    proof (cases "is_ws (b ! i)")
      case False
      with True nz show ?thesis
        by (subst gobble.simps) (simp add: rd_def strchr_ws d id_take_nth_drop [symmetric])
    next
      case ws: True
      have c: "rd b i \<noteq> NUL \<and> strchr WHITESPACE (rd b i)"
        using True nz ws by (simp add: rd_def strchr_ws)
      have "gobble b i = gobble (b[i := NUL]) (Suc i)" using c by (subst gobble.simps) simp
      also have "\<dots> = (take (Suc i) (b[i := NUL])
            @ replicate (length (takeWhile is_ws (drop (Suc i) (b[i := NUL])))) NUL
            @ drop (Suc i + length (takeWhile is_ws (drop (Suc i) (b[i := NUL])))) (b[i := NUL]),
          Suc i + length (takeWhile is_ws (drop (Suc i) (b[i := NUL]))))"
        using c nf by (intro 1(1)) simp_all
      finally show ?thesis using True ws
        by (simp add: d take_Suc_conv_app_nth replicate_append_same)
    qed
  qed
qed

lemma scan_arg_spec:
  "NUL \<notin> set (drop i b) \<Longrightarrow>
   scan_arg b i = i + length (takeWhile (\<lambda>c. \<not> is_ws c) (drop i b))"
proof (induction b i rule: scan_arg.induct)
  case (1 b i)
  show ?case
  proof (cases "i < length b")
    case False
    then show ?thesis by (subst scan_arg.simps) (simp add: rd_def)
  next
    case True
    then have d: "drop i b = b ! i # drop (Suc i) b" by (simp add: Cons_nth_drop_Suc)
    with 1(2) have nz: "b ! i \<noteq> NUL" and nf: "NUL \<notin> set (drop (Suc i) b)" by auto
    show ?thesis
    proof (cases "is_ws (b ! i)")
      case True
      with \<open>i < length b\<close> nz show ?thesis
        by (subst scan_arg.simps) (simp add: rd_def strchr_ws d)
    next
      case False
      have c: "rd b i \<noteq> NUL \<and> \<not> strchr WHITESPACE (rd b i)"
        using True nz False by (simp add: rd_def strchr_ws)
      have "scan_arg b i = scan_arg b (Suc i)" using c by (subst scan_arg.simps) simp
      also have "\<dots> = Suc i + length (takeWhile (\<lambda>c. \<not> is_ws c) (drop (Suc i) b))"
        using c nf by (intro 1(1)) simp_all
      finally show ?thesis using False by (simp add: d)
    qed
  qed
qed

lemma takeWhile_stop:
  "\<forall>x\<in>set xs. P x \<Longrightarrow> ys = [] \<or> \<not> P (hd ys) \<Longrightarrow> takeWhile P (xs @ ys) = xs"
  by (cases ys) (auto simp: takeWhile_append2)

lemma parse_args_spec:
  assumes "NUL \<notin> set (drop i b)" and "i \<le> length b" and "length argv \<le> 15"
  shows "if length argv + length (tokens (drop i b)) \<le> 15
         then \<exists>b' new. parse_args b i argv = Inr (b', argv @ new) \<and> length b' = length b
                \<and> take i b' = take i b \<and> map (cstr b') new = tokens (drop i b)
                \<and> (i < length b \<longrightarrow> is_ws (b ! i) \<longrightarrow> b' ! i = NUL)
         else parse_args b i argv = Inl TooManyArguments"
  using assms
proof (induction b i argv rule: parse_args.induct)
  case (1 b i argv)
  define n where "n = length (takeWhile is_ws (drop i b))"
  define j where "j = i + n"
  define b1 where "b1 = take i b @ replicate n NUL @ drop j b"
  have g: "gobble b i = (b1, j)"
    using gobble_spec [OF 1(2)] by (simp add: n_def j_def b1_def)
  have n_le: "n \<le> length (drop i b)" unfolding n_def by (rule length_takeWhile_le)
  then have j_le: "j \<le> length b" using 1(3) by (simp add: j_def)
  have len1: "length b1 = length b" using 1(3) j_le by (simp add: b1_def j_def)
  have take1: "take i b1 = take i b" using 1(3) by (simp add: b1_def)
  have drop1: "drop j b1 = drop j b" using 1(3) j_le by (simp add: b1_def j_def)
  have dw: "dropWhile is_ws (drop i b) = drop j b"
    by (simp add: j_def n_def dropWhile_eq_drop add.commute)
  have nul_i: "b1 ! i = NUL" if "i < length b" "is_ws (b ! i)"
  proof -
    from that have "drop i b = b ! i # drop (Suc i) b" by (simp add: Cons_nth_drop_Suc)
    with that have "0 < n" by (simp add: n_def)
    then show ?thesis using 1(3) by (simp add: b1_def nth_append)
  qed
  show ?case
  proof (cases "drop j b")
    case Nil
    then have "rd b1 j = NUL" using len1 by (simp add: rd_def)
    then have "parse_args b i argv = Inr (b1, argv)" by (subst parse_args.simps) (simp add: g)
    moreover have "tokens (drop i b) = []" by (subst tokens.simps) (simp add: dw Nil)
    ultimately show ?thesis using 1(4) len1 take1 nul_i by simp
  next
    case (Cons c cs)
    then have jlt: "j < length b" by (cases "j < length b") simp_all
    have cj: "b ! j = c" using Cons by (rule nth_via_drop)
    have c_nws: "\<not> is_ws c" using hd_dropWhile [of is_ws "drop i b"] by (simp add: dw Cons)
    have sub_j: "set (drop j b) \<subseteq> set (drop i b)"
      unfolding dw [symmetric] by (auto dest: set_dropWhileD)
    then have c_nz: "c \<noteq> NUL" using 1(2) Cons by auto
    have "b1 ! j = c" using drop1 Cons by (simp add: nth_via_drop)
    then have rdj: "rd b1 j = c" using jlt len1 by (simp add: rd_def)
    define tok where "tok = c # takeWhile (\<lambda>x. \<not> is_ws x) cs"
    define rest where "rest = dropWhile (\<lambda>x. \<not> is_ws x) cs"
    have toks: "tokens (drop i b) = tok # tokens rest"
      by (subst tokens.simps) (simp add: dw Cons tok_def rest_def)
    show ?thesis
    proof (cases "length argv = MAXARGS - 1")
      case True
      then have "parse_args b i argv = Inl TooManyArguments"
        using rdj c_nz by (subst parse_args.simps) (simp add: g)
      then show ?thesis using True toks by (simp add: MAXARGS_def)
    next
      case False
      define e where "e = scan_arg b1 j"
      have nf_j: "NUL \<notin> set (drop j b1)"
        using 1(2) sub_j by (auto simp: drop1)
      have e_eq: "e = j + length tok"
        unfolding e_def using scan_arg_spec [OF nf_j] c_nws by (simp add: drop1 Cons tok_def)
      have split: "drop j b = tok @ rest"
        using c_nws by (simp add: Cons tok_def rest_def)
      have e_le: "e \<le> length b1"
        using arg_cong [OF split, of length] jlt by (simp add: e_eq len1)
      have drop_e: "drop e b1 = rest"
      proof -
        have "drop e b1 = drop (length tok) (drop j b1)" by (simp add: e_eq add.commute)
        then show ?thesis by (simp add: drop1 split)
      qed
      have nf_e: "NUL \<notin> set (drop e b1)"
        using nf_j by (simp add: drop1 drop_e split)
      have rec: "parse_args b i argv = parse_args b1 e (argv @ [j])"
        using rdj c_nz False by (subst parse_args.simps) (simp add: g e_def)
      have len_argv: "length (argv @ [j]) \<le> 15" using False 1(4) by (simp add: MAXARGS_def)
      have g': "(b1, j) = gobble b i" by (simp add: g)
      have rdnz: "rd b1 j \<noteq> NUL" by (simp add: rdj c_nz)
      note IH = 1(1) [OF g' rdnz False, folded e_def, OF nf_e e_le len_argv]
      show ?thesis
      proof (cases "length argv + length (tokens (drop i b)) \<le> 15")
        case False
        then have "\<not> length (argv @ [j]) + length (tokens (drop e b1)) \<le> 15"
          by (simp add: toks drop_e)
        with IH have "parse_args b1 e (argv @ [j]) = Inl TooManyArguments" by simp
        with False rec show ?thesis by simp
      next
        case True
        then have "length (argv @ [j]) + length (tokens (drop e b1)) \<le> 15"
          by (simp add: toks drop_e)
        with IH obtain b' new where
          p: "parse_args b1 e (argv @ [j]) = Inr (b', (argv @ [j]) @ new)" and
          len': "length b' = length b1" and
          take': "take e b' = take e b1" and
          strs: "map (cstr b') new = tokens (drop e b1)" and
          nul_e: "e < length b1 \<longrightarrow> is_ws (b1 ! e) \<longrightarrow> b' ! e = NUL"
          by auto
        have je: "j \<le> e" by (simp add: e_eq)
        have pre: "drop j (take e b') = tok"
        proof -
          have "drop j (take e b') = take (e - j) (drop j b1)"
            by (simp add: take' drop_take)
          then show ?thesis by (simp add: drop1 split e_eq)
        qed
        have tail: "drop e b' = [] \<or> hd (drop e b') = NUL"
        proof (cases "e < length b1")
          case False
          then show ?thesis using len' by simp
        next
          case True
          then have "rest = b1 ! e # drop (Suc e) b1" using drop_e by (simp add: Cons_nth_drop_Suc)
          then have "is_ws (b1 ! e)"
            using hd_dropWhile [of "\<lambda>x. \<not> is_ws x" cs] by (simp add: rest_def)
          with True nul_e have "b' ! e = NUL" by simp
          then show ?thesis using True len' by (simp add: hd_drop_conv_nth)
        qed
        have tok_nz: "\<forall>x\<in>set tok. x \<noteq> NUL"
          using nf_j by (auto simp: drop1 split)
        have "drop j (take e b' @ drop e b') =
              drop j (take e b') @ drop (j - length (take e b')) (drop e b')"
          by (rule drop_append)
        moreover have "j - length (take e b') = 0" using je e_le len' by simp
        ultimately have "drop j b' = drop j (take e b') @ drop e b'" by simp
        then have "cstr b' j = tok"
          unfolding cstr_def pre using takeWhile_stop [OF tok_nz, of "drop e b'"] tail by auto
        then have strs': "map (cstr b') (j # new) = tokens (drop i b)"
          by (simp add: strs toks drop_e)
        have ij: "i \<le> j" by (simp add: j_def)
        have "take i b' = take i (take e b')" using ij je by (simp add: min.absorb1)
        then have take_i: "take i b' = take i b" using ij je by (simp add: take' take1 min.absorb1)
        have nul_i': "b' ! i = NUL" if "i < length b" "is_ws (b ! i)"
        proof -
          have "i < e"
          proof (rule ccontr)
            assume "\<not> i < e"
            with ij je have "i = j" by simp
            with that c_nws cj show False by simp
          qed
          then have "b' ! i = take e b' ! i" by simp
          also have "\<dots> = b1 ! i" using \<open>i < e\<close> by (simp add: take')
          finally show ?thesis using nul_i that by simp
        qed
        have "parse_args b i argv = Inr (b', argv @ (j # new))" using rec p by simp
        with True len' len1 take_i strs' nul_i' show ?thesis by auto
      qed
    qed
  qed
qed

lemma parse_args_tokens:
  assumes "NUL \<notin> set buf"
  shows "if length (tokens buf) \<le> 15
         then \<exists>b' argv. parse_args buf 0 [] = Inr (b', argv) \<and> map (cstr b') argv = tokens buf
         else parse_args buf 0 [] = Inl TooManyArguments"
  using parse_args_spec [of 0 buf "[]"] assms by (auto split: if_splits)

lemma runcmd_tokens_ok:
  assumes "NUL \<notin> set buf" "length (tokens buf) \<le> 15"
  shows "runcmd cmds buf s = (if tokens buf = [] then Some (0, s) else lookup cmds (tokens buf) s)"
proof -
  obtain b' argv where "parse_args buf 0 [] = Inr (b', argv)" "map (cstr b') argv = tokens buf"
    using parse_args_tokens [OF assms(1)] assms(2) by auto
  then show ?thesis by (auto simp: runcmd_def)
qed

lemma runcmd_tokens_many:
  assumes "NUL \<notin> set buf" "16 \<le> length (tokens buf)"
  shows "runcmd cmds buf s =
           Some (0, cprintf ''Too many arguments (max %d)\<newline>'' [ArgInt 16] s)"
proof -
  have "parse_args buf 0 [] = Inl TooManyArguments"
    using parse_args_tokens [OF assms(1)] assms(2) by auto
  then show ?thesis by (simp add: runcmd_def MAXARGS_def)
qed

lemma tokens_Nil: "tokens [] = []"
  by (subst tokens.simps) simp

lemma tokens_ws: "is_ws c \<Longrightarrow> tokens (c # cs) = tokens cs"
  by (subst tokens.simps, subst (2) tokens.simps) simp

lemma tokens_word:
  "\<not> is_ws c \<Longrightarrow>
   tokens (c # cs) = (c # takeWhile (\<lambda>x. \<not> is_ws x) cs) # tokens (dropWhile (\<lambda>x. \<not> is_ws x) cs)"
  by (subst tokens.simps) simp

lemma is_ws_simps:
  "is_ws c = (c = CHR 0x09 \<or> c = CHR 0x0D \<or> c = CHR 0x0A \<or> c = CHR '' '')"
  by (auto simp: is_ws_def WHITESPACE_def)

lemma NUL_notin:
  "NUL \<notin> set ''frobnicate''" "NUL \<notin> set ''exit''" "NUL \<notin> set []"
  "NUL \<notin> set ''showva2pa 1000 2000''"
  "NUL \<notin> set ''1 2 3 4 5 6 7 8 9 10 11 12 13 14 15 16''"
  by (simp_all add: NUL_def)

lemma tokens_examples:
  "tokens ''frobnicate'' = [''frobnicate'']" "tokens ''exit'' = [''exit'']"
  "tokens ''showva2pa 1000 2000'' = [''showva2pa'', ''1000'', ''2000'']"
  "tokens ''1 2 3 4 5 6 7 8 9 10 11 12 13 14 15 16'' =
     [''1'', ''2'', ''3'', ''4'', ''5'', ''6'', ''7'', ''8'', ''9'', ''10'', ''11'', ''12'',
      ''13'', ''14'', ''15'', ''16'']"
  by (simp_all add: tokens_Nil tokens_ws tokens_word is_ws_simps)

text \<open>
  C5. For a line without NUL characters: when it has at most 15 tokens, the tokenizer
  yields exactly these tokens, in order, as the C strings at the stored indices of the
  buffer it leaves, and \<open>runcmd\<close> goes on to look the command up with them (with no token
  at all it returns 0 at once); when it has 16 tokens or more, the tokenizer stops with
  the error, and \<open>runcmd\<close> prints the message and returns 0 without looking anything up.
\<close>

theorem runcmd_tokenizes:
  assumes "NUL \<notin> set buf"
  shows "(length (tokens buf) \<le> 15 \<longrightarrow>
            (\<exists>b' argv. parse_args buf 0 [] = Inr (b', argv) \<and> map (cstr b') argv = tokens buf)
            \<and> runcmd cmds buf s =
                (if tokens buf = [] then Some (0, s) else lookup cmds (tokens buf) s))
         \<and> (16 \<le> length (tokens buf) \<longrightarrow>
            parse_args buf 0 [] = Inl TooManyArguments
            \<and> runcmd cmds buf s =
                Some (0, cprintf ''Too many arguments (max %d)\<newline>'' [ArgInt 16] s))"
proof (intro conjI impI)
  assume few: "length (tokens buf) \<le> 15"
  with parse_args_tokens [OF assms]
  show "\<exists>b' argv. parse_args buf 0 [] = Inr (b', argv) \<and> map (cstr b') argv = tokens buf"
    by simp
  from assms few
  show "runcmd cmds buf s = (if tokens buf = [] then Some (0, s) else lookup cmds (tokens buf) s)"
    by (rule runcmd_tokens_ok)
next
  assume many: "16 \<le> length (tokens buf)"
  then have "\<not> length (tokens buf) \<le> 15" by simp
  with parse_args_tokens [OF assms] show "parse_args buf 0 [] = Inl TooManyArguments" by simp
  from assms many
  show "runcmd cmds buf s =
      Some (0, cprintf ''Too many arguments (max %d)\<newline>'' [ArgInt 16] s)"
    by (rule runcmd_tokens_many)
qed

theorem runcmd_tokenizes_witness:
  "runcmd (commands env1) ''showva2pa 1000 2000'' s0 =
     Some (0, \<lparr>console =
         [Cprintf ''VA: 0x%x, PA: 0x%x, pp_ref: %d, PTE_W: %d, PTE_U: %d\<newline>''
            [ArgInt 0x1000, ArgInt 0x5000, ArgInt 1, ArgInt 1, ArgInt 1],
          Cprintf ''VA: %x does not have a mapped physical page!\<newline>'' [ArgInt 0x2000]],
       queries = [Q_pgdir_walk 0x1000 False, Q_page_lookup 0x1000, Q_pgdir_walk 0x2000 False],
       kern_pgdir = 0\<rparr>)
   \<and> runcmd (commands env1) ''1 2 3 4 5 6 7 8 9 10 11 12 13 14 15 16'' s0 =
     Some (0, \<lparr>console = [Cprintf ''Too many arguments (max %d)\<newline>'' [ArgInt 16]],
               queries = [], kern_pgdir = 0\<rparr>)"
proof -
  have "lookup (commands env1) [''showva2pa'', ''1000'', ''2000''] s0 =
      mon_showva2pa env1 [''showva2pa'', ''1000'', ''2000''] s0"
    by (simp add: commands_def command_names_def)
  then have A: "runcmd (commands env1) ''showva2pa 1000 2000'' s0 =
      mon_showva2pa env1 [''showva2pa'', ''1000'', ''2000''] s0"
    using runcmd_tokenizes [OF NUL_notin(4), of "commands env1" s0]
    by (simp add: tokens_examples)
  have B: "runcmd (commands env1) ''1 2 3 4 5 6 7 8 9 10 11 12 13 14 15 16'' s0 =
      Some (0, cprintf ''Too many arguments (max %d)\<newline>'' [ArgInt 16] s0)"
    using runcmd_tokenizes [OF NUL_notin(5), of "commands env1" s0]
    by (simp add: tokens_examples)
  show ?thesis unfolding A B walk_env1 by (simp add: cprintf_def s0_def)
qed

section \<open>The monitor loop\<close>

lemma lookup_negative:
  "lookup cmds argv s = Some (r, s') \<Longrightarrow> r < 0 \<Longrightarrow>
   \<exists>c. c \<in> set cmds \<and> name c = argv ! 0 \<and> func c argv s = Some (r, s')"
proof (induction cmds)
  case Nil
  then show ?case by simp
next
  case (Cons c cs)
  show ?case
  proof (cases "argv ! 0 = name c")
    case True
    with Cons.prems have "func c argv s = Some (r, s')" by simp
    with True show ?thesis by auto
  next
    case False
    with Cons.prems have "lookup cs argv s = Some (r, s')" by simp
    from Cons.IH [OF this Cons.prems(2)] show ?thesis by auto
  qed
qed

lemma runcmd_negative:
  assumes "runcmd cmds buf s = Some (r, s')" "r < 0"
  shows "\<exists>b' idx c. parse_args buf 0 [] = Inr (b', idx) \<and> idx \<noteq> [] \<and> c \<in> set cmds
           \<and> name c = cstr b' (idx ! 0) \<and> func c (map (cstr b') idx) s = Some (r, s')"
proof (cases "parse_args buf 0 []")
  case (Inl err)
  with assms show ?thesis by (cases err) (simp add: runcmd_def)
next
  case (Inr p)
  obtain b' idx where p: "p = (b', idx)" by (cases p)
  show ?thesis
  proof (cases "idx = []")
    case True
    with assms Inr p show ?thesis by (simp add: runcmd_def)
  next
    case False
    with assms(1) Inr p have "lookup cmds (map (cstr b') idx) s = Some (r, s')"
      by (simp add: runcmd_def)
    from lookup_negative [OF this assms(2)] obtain c where
      "c \<in> set cmds" "name c = map (cstr b') idx ! 0" "func c (map (cstr b') idx) s = Some (r, s')"
      by blast
    moreover have "map (cstr b') idx ! 0 = cstr b' (idx ! 0)" using False by (cases idx) simp_all
    ultimately show ?thesis using Inr p False by auto
  qed
qed

lemma monitor_loop_terminated:
  "monitor_loop cmds ls s = Some (Terminated, s') \<Longrightarrow>
   \<exists>buf b' idx c s1 r. Some buf \<in> set ls \<and> parse_args buf 0 [] = Inr (b', idx) \<and> idx \<noteq> []
     \<and> c \<in> set cmds \<and> name c = cstr b' (idx ! 0)
     \<and> func c (map (cstr b') idx) s1 = Some (r, s') \<and> r < 0"
proof (induction ls arbitrary: s)
  case Nil
  then show ?case by simp
next
  case (Cons l ls)
  have later: ?case
    if "monitor_loop cmds ls s1 = Some (Terminated, s')" for s1
  proof -
    from Cons.IH [OF that] obtain buf b' idx c s2 r where
      "Some buf \<in> set ls" "parse_args buf 0 [] = Inr (b', idx)" "idx \<noteq> []" "c \<in> set cmds"
      "name c = cstr b' (idx ! 0)" "func c (map (cstr b') idx) s2 = Some (r, s')" "r < 0"
      by blast
    moreover from this have "Some buf \<in> set (l # ls)" by simp
    ultimately show ?thesis by blast
  qed
  show ?case
  proof (cases l)
    case None
    with Cons.prems have "monitor_loop cmds ls s = Some (Terminated, s')" by simp
    then show ?thesis by (rule later)
  next
    case (Some buf)
    with Cons.prems obtain r s1 where run: "runcmd cmds buf s = Some (r, s1)"
      by (auto split: option.splits)
    show ?thesis
    proof (cases "r < 0")
      case True
      with run Some Cons.prems have "s1 = s'" by simp
      with runcmd_negative [OF run True] obtain b' idx c where
        "parse_args buf 0 [] = Inr (b', idx)" "idx \<noteq> []" "c \<in> set cmds"
        "name c = cstr b' (idx ! 0)" "func c (map (cstr b') idx) s = Some (r, s')"
        by blast
      moreover have "Some buf \<in> set (l # ls)" using Some by simp
      ultimately show ?thesis using True by blast
    next
      case False
      with run Some Cons.prems have "monitor_loop cmds ls s1 = Some (Terminated, s')" by simp
      then show ?thesis by (rule later)
    qed
  qed
qed

lemma handlers_return_0:
  "mon_help argv s = Some (r, s') \<Longrightarrow> r = 0"
  "mon_kerninfo e argv s = Some (r, s') \<Longrightarrow> r = 0"
  "mon_backtrace e argv s = Some (r, s') \<Longrightarrow> r = 0"
  "mon_showva2pa e argv s = Some (r, s') \<Longrightarrow> r = 0"
proof -
  show "mon_help argv s = Some (r, s') \<Longrightarrow> r = 0" by (simp add: mon_help_def)
  show "mon_kerninfo e argv s = Some (r, s') \<Longrightarrow> r = 0"
    by (simp add: mon_kerninfo_def Let_def)
  show "mon_backtrace e argv s = Some (r, s') \<Longrightarrow> r = 0"
    by (auto simp: mon_backtrace_def split: option.splits)
  show "mon_showva2pa e argv s = Some (r, s') \<Longrightarrow> r = 0"
    by (auto simp: mon_showva2pa_def split: if_splits prod.splits option.splits)
qed

lemma commands_return_0:
  assumes "c \<in> set (commands e)" "func c argv s = Some (r, s')"
  shows "r = 0"
proof -
  from assms(1) have "func c = mon_help \<or> func c = mon_kerninfo e \<or> func c = mon_backtrace e
      \<or> func c = mon_showva2pa e"
    by (auto simp: commands_def command_names_def)
  with assms(2) show ?thesis by (auto dest: handlers_return_0)
qed

lemma monitor_commands_never_terminates:
  "monitor (commands e) ls s \<noteq> Some (Terminated, s')"
proof
  assume "monitor (commands e) ls s = Some (Terminated, s')"
  then have "monitor_loop (commands e) ls
      (cprintf ''Type 'help' for a list of commands.\<newline>'' []
        (cprintf ''Welcome to the JOS kernel monitor!\<newline>'' [] s)) = Some (Terminated, s')"
    by (simp add: monitor_def)
  from monitor_loop_terminated [OF this] obtain c argv s1 r where
    c: "c \<in> set (commands e)" "func c argv s1 = Some (r, s')" and neg: "r < 0" by blast
  from c have "r = 0" by (rule commands_return_0)
  with neg show False by simp
qed

text \<open>
  C8. The monitor leaves its loop only through a handler: when it has terminated, one
  of the lines read was cut into a non-empty argument vector, its first argument named
  a command of the table, and the handler of that command returned a negative value.
  A \<open>NULL\<close> from \<open>readline\<close> is skipped. (With the table \<open>commands\<close> of the source,
  whose four handlers all return 0, the monitor never terminates.)
\<close>

theorem monitor_leaves_only_by_handler:
  "(monitor cmds ls s = Some (Terminated, s') \<longrightarrow>
      (\<exists>buf b' idx c s1 r. Some buf \<in> set ls \<and> parse_args buf 0 [] = Inr (b', idx) \<and> idx \<noteq> []
         \<and> c \<in> set cmds \<and> name c = cstr b' (idx ! 0)
         \<and> func c (map (cstr b') idx) s1 = Some (r, s') \<and> r < 0))
   \<and> monitor cmds (None # ls) s = monitor cmds ls s"
proof (intro conjI impI)
  assume "monitor cmds ls s = Some (Terminated, s')"
  then have "monitor_loop cmds ls
      (cprintf ''Type 'help' for a list of commands.\<newline>'' []
        (cprintf ''Welcome to the JOS kernel monitor!\<newline>'' [] s)) = Some (Terminated, s')"
    by (simp add: monitor_def)
  then show "\<exists>buf b' idx c s1 r. Some buf \<in> set ls \<and> parse_args buf 0 [] = Inr (b', idx)
      \<and> idx \<noteq> [] \<and> c \<in> set cmds \<and> name c = cstr b' (idx ! 0)
      \<and> func c (map (cstr b') idx) s1 = Some (r, s') \<and> r < 0"
    by (rule monitor_loop_terminated)
next
  show "monitor cmds (None # ls) s = monitor cmds ls s" by (simp add: monitor_def)
qed

theorem monitor_leaves_only_by_handler_witness:
  "monitor exit_commands [None, Some ''frobnicate'', Some [], Some ''exit''] s0 =
     Some (Terminated,
       \<lparr>console =
          [Cprintf ''Welcome to the JOS kernel monitor!\<newline>'' [],
           Cprintf ''Type 'help' for a list of commands.\<newline>'' [],
           Cprintf ''Unknown command '%s'\<newline>'' [ArgStr ''frobnicate'']],
        queries = [], kern_pgdir = 0\<rparr>)
   \<and> (\<exists>buf b' idx c s1 r.
         Some buf \<in> set [None, Some ''frobnicate'', Some [], Some ''exit'']
         \<and> parse_args buf 0 [] = Inr (b', idx) \<and> idx \<noteq> []
         \<and> c \<in> set exit_commands \<and> name c = cstr b' (idx ! 0)
         \<and> func c (map (cstr b') idx) s1 =
             Some (r, \<lparr>console =
               [Cprintf ''Welcome to the JOS kernel monitor!\<newline>'' [],
                Cprintf ''Type 'help' for a list of commands.\<newline>'' [],
                Cprintf ''Unknown command '%s'\<newline>'' [ArgStr ''frobnicate'']],
              queries = [], kern_pgdir = 0\<rparr>)
         \<and> r < 0)"
proof -
  have r1: "runcmd exit_commands ''frobnicate'' s = Some (0, cprintf ''Unknown command '%s'\<newline>'' [ArgStr ''frobnicate''] s)"
    for s :: "nat mstate"
    using runcmd_tokens_ok [OF NUL_notin(1), of exit_commands s]
    by (simp add: tokens_examples exit_commands_def)
  have r2: "runcmd exit_commands [] s = Some (0, s)" for s :: "nat mstate"
    using runcmd_tokens_ok [OF NUL_notin(3), of exit_commands s] by (simp add: tokens_Nil)
  have r3: "runcmd exit_commands ''exit'' s = Some (- 1, s)" for s :: "nat mstate"
    using runcmd_tokens_ok [OF NUL_notin(2), of exit_commands s]
    by (simp add: tokens_examples exit_commands_def)
  have run: "monitor exit_commands [None, Some ''frobnicate'', Some [], Some ''exit''] s0 =
     Some (Terminated,
       \<lparr>console =
          [Cprintf ''Welcome to the JOS kernel monitor!\<newline>'' [],
           Cprintf ''Type 'help' for a list of commands.\<newline>'' [],
           Cprintf ''Unknown command '%s'\<newline>'' [ArgStr ''frobnicate'']],
        queries = [], kern_pgdir = 0\<rparr>)"
    by (simp add: monitor_def r1 r2 r3) (simp add: cprintf_def s0_def)
  with monitor_leaves_only_by_handler
    [of exit_commands "[None, Some ''frobnicate'', Some [], Some ''exit'']" s0]
  show ?thesis by blast
qed

end
